theory Spec2Isabelle
  imports Main "HOL-Library.Char_ord" "HOL-Library.List_Lexorder"
begin

section \<open>Python values, strings and files\<close>

text \<open>
  The two scripts under verification are \<^verbatim>\<open>scripts/menuconfig.py\<close> (the interactive
  editor with its loader and saver) and \<^verbatim>\<open>scripts/config_header_generator.py\<close> (the
  header compiler).

  Modelling conventions.
  \<^item> A Python \<^verbatim>\<open>str\<close> is a \<^typ>\<open>string\<close>; a character is read as the code point of the
    same number (U+0000 to U+00FF). On such text the string functions below agree with
    Python's; code points above U+00FF are outside the model.
  \<^item> A configuration value is a \<^verbatim>\<open>bool\<close>, an \<^verbatim>\<open>int\<close> or a \<^verbatim>\<open>str\<close>. Python's \<^verbatim>\<open>bool\<close>
    is a subclass of \<^verbatim>\<open>int\<close>, which \<open>isinstance_int\<close> reflects.
  \<^item> A \<^verbatim>\<open>dict\<close> is an association list with distinct keys in insertion order, as Python
    iterates it; equality of dicts is equality of the maps (\<^const>\<open>map_of\<close>).
  \<^item> The file system is a map from path to contents; a path that is absent does not
    exist. Reading and writing never fail otherwise (no permission or I/O errors), and
    \<^verbatim>\<open>input()\<close> always delivers a line: the scripted input is a parameter.
  \<^item> Integers are unbounded; the interpreter's configurable limit on the number of
    digits in \<^verbatim>\<open>int(str)\<close> and \<^verbatim>\<open>str(int)\<close> conversions is not modelled.
\<close>

datatype pyval = PBool bool | PInt int | PStr string

fun isinstance_bool :: "pyval \<Rightarrow> bool" where
  "isinstance_bool (PBool b) = True"
| "isinstance_bool (PInt n) = False"
| "isinstance_bool (PStr s) = False"

fun isinstance_int :: "pyval \<Rightarrow> bool" where
  "isinstance_int (PBool b) = True"
| "isinstance_int (PInt n) = True"
| "isinstance_int (PStr s) = False"

fun isinstance_str :: "pyval \<Rightarrow> bool" where
  "isinstance_str (PBool b) = False"
| "isinstance_str (PInt n) = False"
| "isinstance_str (PStr s) = True"

text \<open>Truth value of an object, as \<^verbatim>\<open>if value:\<close> and \<^verbatim>\<open>not value\<close> test it.\<close>

fun truthy :: "pyval \<Rightarrow> bool" where
  "truthy (PBool b) = b"
| "truthy (PInt n) = (n \<noteq> 0)"
| "truthy (PStr s) = (s \<noteq> [])"

abbreviation LF :: char where "LF \<equiv> CHR 0x0A"
abbreviation CR :: char where "CR \<equiv> CHR 0x0D"
abbreviation DQ :: char where "DQ \<equiv> CHR 0x22"

text \<open>\<^verbatim>\<open>str.isspace\<close> on one character, for code points below 256.\<close>

definition isspace :: "char \<Rightarrow> bool" where
  "isspace c = (c \<in> {CHR 0x09, CHR 0x0A, CHR 0x0B, CHR 0x0C, CHR 0x0D,
                      CHR 0x1C, CHR 0x1D, CHR 0x1E, CHR 0x1F, CHR 0x20, CHR 0x85, CHR 0xA0})"

text \<open>\<^verbatim>\<open>s.strip()\<close> and \<^verbatim>\<open>s.strip(chars)\<close>.\<close>

definition strip_by :: "(char \<Rightarrow> bool) \<Rightarrow> string \<Rightarrow> string" where
  "strip_by p s = rev (dropWhile p (rev (dropWhile p s)))"

definition py_strip :: "string \<Rightarrow> string" where
  "py_strip s = strip_by isspace s"

definition py_strip_chars :: "string \<Rightarrow> string \<Rightarrow> string" where
  "py_strip_chars chars s = strip_by (\<lambda>c. c \<in> set chars) s"

definition startswith :: "string \<Rightarrow> string \<Rightarrow> bool" where
  "startswith s p = (take (length p) s = p)"

definition endswith :: "string \<Rightarrow> string \<Rightarrow> bool" where
  "endswith s p = (length p \<le> length s \<and> drop (length s - length p) s = p)"

text \<open>\<^verbatim>\<open>s.find(sub)\<close>: the lowest index where \<open>sub\<close> occurs, or \<open>-1\<close>.\<close>

fun find_from :: "string \<Rightarrow> string \<Rightarrow> nat \<Rightarrow> int" where
  "find_from sub [] i = (if sub = [] then int i else - 1)"
| "find_from sub (c # cs) i =
     (if take (length sub) (c # cs) = sub then int i else find_from sub cs (Suc i))"

definition py_find :: "string \<Rightarrow> string \<Rightarrow> int" where
  "py_find s sub = find_from sub s 0"

text \<open>\<^verbatim>\<open>sub in s\<close>.\<close>

definition py_contains :: "string \<Rightarrow> string \<Rightarrow> bool" where
  "py_contains sub s = (py_find s sub \<noteq> - 1)"

text \<open>\<^verbatim>\<open>s[a:b]\<close>: a negative bound counts from the end, and both are clamped.\<close>

definition slice_bound :: "nat \<Rightarrow> int \<Rightarrow> nat" where
  "slice_bound n i = (if i < 0 then nat (int n + i) else min n (nat i))"

definition py_slice :: "string \<Rightarrow> int \<Rightarrow> int \<Rightarrow> string" where
  "py_slice s a b =
     (let lo = slice_bound (length s) a; hi = slice_bound (length s) b
      in take (hi - lo) (drop lo s))"

text \<open>\<^verbatim>\<open>s.split('=', 1)\<close> for a string that contains \<^verbatim>\<open>=\<close>: the text before the first
  \<^verbatim>\<open>=\<close> and the text after it.\<close>

definition split_eq :: "string \<Rightarrow> string \<times> string" where
  "split_eq s = (takeWhile (\<lambda>c. c \<noteq> CHR ''='') s, tl (dropWhile (\<lambda>c. c \<noteq> CHR ''='') s))"

text \<open>\<^verbatim>\<open>s.lower()\<close>, for code points below 256.\<close>

definition lower_char :: "char \<Rightarrow> char" where
  "lower_char c =
     (let n = (of_char c :: nat)
      in if (65 \<le> n \<and> n \<le> 90) \<or> (192 \<le> n \<and> n \<le> 222 \<and> n \<noteq> 215)
         then char_of (n + 32) else c)"

definition py_lower :: "string \<Rightarrow> string" where
  "py_lower s = map lower_char s"

subsection \<open>Conversions between integers and text\<close>

definition is_digit :: "char \<Rightarrow> bool" where
  "is_digit c = (48 \<le> (of_char c :: nat) \<and> (of_char c :: nat) \<le> 57)"

definition digit_val :: "char \<Rightarrow> nat" where
  "digit_val c = of_char c - 48"

definition digit_char :: "nat \<Rightarrow> char" where
  "digit_char n = char_of (48 + n)"

text \<open>The digits of an integer literal: a digit, then digits each optionally preceded by
  one underscore. The accumulator is the value read so far.\<close>

fun digits_value :: "string \<Rightarrow> nat \<Rightarrow> nat option" where
  "digits_value [] acc = Some acc"
| "digits_value (c # cs) acc =
     (if is_digit c then digits_value cs (acc * 10 + digit_val c)
      else if c = CHR ''_'' then
        (case cs of [] \<Rightarrow> None
         | d # ds \<Rightarrow> if is_digit d then digits_value cs acc else None)
      else None)"

text \<open>The characters \<^verbatim>\<open>int()\<close> skips around a literal (code points below 256).\<close>

definition int_space :: "char \<Rightarrow> bool" where
  "int_space c = (c \<in> {CHR 0x09, CHR 0x0A, CHR 0x0B, CHR 0x0C, CHR 0x0D, CHR 0x20,
                        CHR 0x85, CHR 0xA0})"

text \<open>\<^verbatim>\<open>int(s)\<close>: \<open>None\<close> stands for \<^verbatim>\<open>ValueError\<close>.\<close>

definition py_int :: "string \<Rightarrow> int option" where
  "py_int s =
     (let t = strip_by int_space s;
          neg = (t \<noteq> [] \<and> hd t = CHR ''-'');
          body = (if t \<noteq> [] \<and> (hd t = CHR ''-'' \<or> hd t = CHR ''+'') then tl t else t)
      in case body of [] \<Rightarrow> None
         | d # ds \<Rightarrow>
             if is_digit d
             then map_option (\<lambda>n. if neg then - int n else int n) (digits_value body 0)
             else None)"

fun str_nat :: "nat \<Rightarrow> string" where
  "str_nat n = (if n < 10 then [digit_char n] else str_nat (n div 10) @ [digit_char (n mod 10)])"

declare str_nat.simps [simp del]

text \<open>\<^verbatim>\<open>str(n)\<close> for an integer.\<close>

definition py_str_int :: "int \<Rightarrow> string" where
  "py_str_int i = (if i < 0 then CHR ''-'' # str_nat (nat (- i)) else str_nat (nat i))"

text \<open>\<^verbatim>\<open>f"{value}"\<close>: the text an f-string puts for a value.\<close>

fun py_format :: "pyval \<Rightarrow> string" where
  "py_format (PBool b) = (if b then ''True'' else ''False'')"
| "py_format (PInt n) = py_str_int n"
| "py_format (PStr s) = s"

subsection \<open>Dictionaries and files\<close>

type_synonym config = "(string \<times> pyval) list"

text \<open>\<^verbatim>\<open>config[key] = value\<close>: an existing key keeps its place, a new key goes last.\<close>

fun dict_set :: "string \<Rightarrow> pyval \<Rightarrow> config \<Rightarrow> config" where
  "dict_set k v [] = [(k, v)]"
| "dict_set k v ((k', v') # rest) =
     (if k' = k then (k, v) # rest else (k', v') # dict_set k v rest)"

text \<open>\<^verbatim>\<open>config.update(other)\<close>.\<close>

definition dict_update :: "config \<Rightarrow> config \<Rightarrow> config" where
  "dict_update config other = fold (\<lambda>(k, v). dict_set k v) other config"

text \<open>\<^verbatim>\<open>sorted(config.items())\<close>: the keys of a dict are distinct, so the order of the
  pairs is the order of the keys (strings compare by code point, lexicographically).\<close>

definition sorted_items :: "config \<Rightarrow> config" where
  "sorted_items config = sort_key fst config"

type_synonym fs = "string \<rightharpoonup> string"

text \<open>\<^verbatim>\<open>for line in f\<close> on a file opened in text mode: the lines of the text, each with
  its terminator, where \<^verbatim>\<open>\r\n\<close> and \<^verbatim>\<open>\r\<close> are read as \<^verbatim>\<open>\n\<close>.\<close>

fun file_lines :: "string \<Rightarrow> string list" where
  "file_lines [] = []"
| "file_lines (c # cs) =
     (if c = LF then [LF] # file_lines cs
      else if c = CR then
        (case cs of [] \<Rightarrow> [[LF]]
         | d # ds \<Rightarrow> if d = LF then [LF] # file_lines ds else [LF] # file_lines cs)
      else (case file_lines cs of [] \<Rightarrow> [[c]] | l # ls \<Rightarrow> (c # l) # ls))"

section \<open>The editor: \<^verbatim>\<open>menuconfig.py\<close>\<close>

subsection \<open>\<^verbatim>\<open>load_config\<close>\<close>

text \<open>The conversion of the text after \<^verbatim>\<open>=\<close> into a value (lines 18 to 29): a quoted
  value loses its first and last character, \<^verbatim>\<open>y\<close> and \<^verbatim>\<open>n\<close> are the booleans, a value
  that \<^verbatim>\<open>int\<close> accepts is an integer, anything else stays a string.\<close>

definition convert_value :: "string \<Rightarrow> pyval" where
  "convert_value v =
     (if startswith v [DQ] \<and> endswith v [DQ] then PStr (py_slice v 1 (- 1))
      else if v = ''y'' then PBool True
      else if v = ''n'' then PBool False
      else (case py_int v of Some n \<Rightarrow> PInt n | None \<Rightarrow> PStr v))"

text \<open>The body of the loop over the lines (lines 14 to 34). The branch for
  \<^verbatim>\<open>is not set\<close> lines sits, as in the source, under the test that the line does not
  start with \<^verbatim>\<open>#\<close>.\<close>

definition load_line :: "string \<Rightarrow> config \<Rightarrow> config" where
  "load_line raw config =
     (let line = py_strip raw
      in if line \<noteq> [] \<and> \<not> startswith line ''#'' then
           (if CHR ''='' \<in> set line then
              (let (key, v) = split_eq line in dict_set key (convert_value v) config)
            else if startswith line ''#'' \<and> py_contains '' is not set'' line then
              dict_set (py_slice line 2 (py_find line '' is not set'')) (PBool False) config
            else config)
         else config)"

definition load_config :: "fs \<Rightarrow> string \<Rightarrow> config" where
  "load_config files config_file =
     (case files config_file of
        None \<Rightarrow> []
      | Some text \<Rightarrow> fold load_line (file_lines text) [])"

subsection \<open>\<^verbatim>\<open>save_config\<close> and \<^verbatim>\<open>view_config\<close>\<close>

text \<open>The line for one option, without its terminator (lines 43 to 51 and 263 to 271):
  the boolean test comes first, then the integer test.\<close>

definition option_line :: "string \<Rightarrow> pyval \<Rightarrow> string" where
  "option_line key v =
     (if isinstance_bool v then
        (if truthy v then key @ ''=y'' else ''#'' @ key @ '' is not set'')
      else if isinstance_int v then key @ ''='' @ py_format v
      else key @ ''='' @ [DQ] @ py_format v @ [DQ])"

text \<open>The strings \<^verbatim>\<open>save_config\<close> passes to \<^verbatim>\<open>f.write\<close>, in order.\<close>

definition save_writes :: "config \<Rightarrow> string list" where
  "save_writes config =
     [''# LittleKernel Configuration'' @ [LF], [LF]]
     @ map (\<lambda>(key, v). option_line key v @ [LF]) (sorted_items config)"

definition save_config :: "config \<Rightarrow> string \<Rightarrow> fs \<Rightarrow> fs" where
  "save_config config config_file files = files(config_file \<mapsto> concat (save_writes config))"

text \<open>\<^verbatim>\<open>view_config\<close> prints and returns nothing; the model is the printed lines.\<close>

definition view_config :: "config \<Rightarrow> string list" where
  "view_config config =
     [''Current Configuration'', ''====================='', []]
     @ map (\<lambda>(key, v). option_line key v) (sorted_items config)
     @ [[]]"

subsection \<open>The list-edit states\<close>

text \<open>Each function takes the model and the text typed at its prompts, and returns the
  model as it is afterwards. \<open>None\<close> from \<^const>\<open>py_int\<close> is the \<^verbatim>\<open>ValueError\<close> that the
  source catches.\<close>

definition bool_options :: "config \<Rightarrow> config" where
  "bool_options config = filter (\<lambda>(k, v). isinstance_bool v) config"

definition int_options :: "config \<Rightarrow> config" where
  "int_options config = filter (\<lambda>(k, v). isinstance_int v) config"

definition str_options :: "config \<Rightarrow> config" where
  "str_options config = filter (\<lambda>(k, v). isinstance_str v \<and> \<not> isinstance_bool v) config"

text \<open>\<^verbatim>\<open>enumerate(options.items(), 1)\<close>: the numbered listing that is printed.\<close>

definition listing :: "config \<Rightarrow> (nat \<times> string \<times> pyval) list" where
  "listing options = zip [1 ..< Suc (length options)] options"

text \<open>\<^verbatim>\<open>config[key]\<close> for a key that is present.\<close>

definition dict_get :: "config \<Rightarrow> string \<Rightarrow> pyval" where
  "dict_get config key = the (map_of config key)"

definition toggle_bool_options :: "config \<Rightarrow> string \<Rightarrow> config" where
  "toggle_bool_options config choice_text =
     (let opts = bool_options config
      in if opts = [] then config
         else (case py_int (py_strip choice_text) of
                 None \<Rightarrow> config
               | Some choice \<Rightarrow>
                   if choice = 0 then config
                   else if 1 \<le> choice \<and> choice \<le> int (length opts) then
                     (let key = fst (opts ! nat (choice - 1))
                      in dict_set key (PBool (\<not> truthy (dict_get config key))) config)
                   else config))"

definition set_int_options :: "config \<Rightarrow> string \<Rightarrow> string \<Rightarrow> config" where
  "set_int_options config choice_text value_text =
     (let opts = int_options config
      in if opts = [] then config
         else (case py_int (py_strip choice_text) of
                 None \<Rightarrow> config
               | Some choice \<Rightarrow>
                   if choice = 0 then config
                   else if 1 \<le> choice \<and> choice \<le> int (length opts) then
                     (let key = fst (opts ! nat (choice - 1));
                          new_val = py_strip value_text
                      in case py_int new_val of
                           Some n \<Rightarrow> dict_set key (PInt n) config
                         | None \<Rightarrow> config)
                   else config))"

definition set_string_options :: "config \<Rightarrow> string \<Rightarrow> string \<Rightarrow> config" where
  "set_string_options config choice_text value_text =
     (let opts = str_options config
      in if opts = [] then config
         else (case py_int (py_strip choice_text) of
                 None \<Rightarrow> config
               | Some choice \<Rightarrow>
                   if choice = 0 then config
                   else if 1 \<le> choice \<and> choice \<le> int (length opts) then
                     (let key = fst (opts ! nat (choice - 1));
                          new_val = py_strip value_text
                      in dict_set key (PStr new_val) config)
                   else config))"

subsection \<open>The external configurator and the start of \<^verbatim>\<open>main\<close>\<close>

text \<open>The external program is a parameter: from the file system it finds, it leaves a
  file system and an exit status (\<open>True\<close> for zero). \<^verbatim>\<open>use_dialog_interface\<close> runs it when
  the script exists and reports whether it succeeded.\<close>

definition use_dialog_interface :: "string \<Rightarrow> (fs \<Rightarrow> fs \<times> bool) \<Rightarrow> fs \<Rightarrow> fs \<times> bool" where
  "use_dialog_interface script_path run files =
     (if files script_path \<noteq> None then run files else (files, False))"

text \<open>Choice \<^verbatim>\<open>1\<close> of \<^verbatim>\<open>display_menu\<close> (lines 83 to 86).\<close>

definition menu_dialog :: "string \<Rightarrow> (fs \<Rightarrow> fs \<times> bool) \<Rightarrow> config \<Rightarrow> fs \<Rightarrow> config \<times> fs" where
  "menu_dialog script_path run config files =
     (let (files', ok) = use_dialog_interface script_path run files
      in if ok then (dict_update config (load_config files' ''.config''), files')
         else (config, files'))"

definition default_config :: config where
  "default_config =
     [(''CONFIG_X86'', PBool True),
      (''CONFIG_SERIAL_CONSOLE'', PBool True),
      (''CONFIG_VGA_CONSOLE'', PBool True),
      (''CONFIG_KERNEL_DEBUG'', PBool True),
      (''CONFIG_VERBOSE_LOG'', PBool False),
      (''CONFIG_RUNTIME_CONFIG'', PBool True),
      (''CONFIG_HAL'', PBool True),
      (''CONFIG_PROFILING'', PBool False),
      (''CONFIG_MODULES'', PBool True),
      (''CONFIG_PCI'', PBool True),
      (''CONFIG_TIMER_HZ'', PInt 100),
      (''CONFIG_MAX_PROCESSES'', PInt 128),
      (''CONFIG_KERNEL_HEAP_SIZE'', PInt 16),
      (''CONFIG_EARLY_MEM'', PBool True),
      (''CONFIG_HW_DIAGNOSTICS'', PBool True),
      (''CONFIG_ERROR_HANDLING'', PBool True)]"

text \<open>The model \<^verbatim>\<open>main\<close> hands to \<^verbatim>\<open>display_menu\<close> (lines 278 to 302).\<close>

definition main_config :: "fs \<Rightarrow> config" where
  "main_config files =
     (let config = load_config files ''.config''
      in if config = [] then default_config else config)"

section \<open>The header compiler: \<^verbatim>\<open>config_header_generator.py\<close>\<close>

type_synonym macro_def = "string \<times> string \<times> string"

text \<open>The entry for a \<^verbatim>\<open>NAME=value\<close> line, from the stripped name and value (lines 37
  to 47).\<close>

definition define_entry :: "string \<Rightarrow> string \<Rightarrow> macro_def" where
  "define_entry config_name config_value =
     (if startswith config_value [DQ] \<and> endswith config_value [DQ] then
        (config_name, [DQ] @ py_strip_chars [DQ] config_value @ [DQ], ''string'')
      else if py_lower config_value \<in> set [''y'', ''yes'', ''true''] then
        (config_name, ''1'', ''boolean'')
      else if py_lower config_value \<in> set [''n'', ''no'', ''false''] then
        (config_name, ''0'', ''boolean'')
      else (config_name, config_value, ''numeric''))"

text \<open>The body of the loop over the lines (lines 21 to 47).\<close>

definition header_line :: "string \<Rightarrow> macro_def list \<Rightarrow> macro_def list" where
  "header_line raw defines =
     (let line = py_strip raw
      in if line = [] \<or> startswith line ''#'' then
           (if startswith line ''# CONFIG_'' \<and> py_contains ''is not set'' line then
              defines @ [(py_slice line 2 (py_find line '' is not set''), ''0'', ''disabled'')]
            else defines)
         else if CHR ''='' \<in> set line then
           (let (p0, p1) = split_eq line
            in defines @ [define_entry (py_strip p0) (py_strip p1)])
         else defines)"

text \<open>The strings written for one entry (lines 57 to 60), and for the whole header
  (lines 51 to 62).\<close>

definition define_block :: "macro_def \<Rightarrow> string list" where
  "define_block d =
     (case d of (name, v, type_desc) \<Rightarrow>
        [''#ifndef '' @ name @ [LF],
         ''#define '' @ name @ '' '' @ v @ ''  /* '' @ type_desc @ '' */'' @ [LF],
         ''#endif'' @ [LF],
         [LF]])"

definition header_writes :: "macro_def list \<Rightarrow> string list" where
  "header_writes defines =
     [''/* Auto-generated from .config - DO NOT EDIT */'' @ [LF],
      ''#ifndef _KERNEL_CONFIG_DEFINES_H'' @ [LF],
      ''#define _KERNEL_CONFIG_DEFINES_H'' @ [LF],
      [LF]]
     @ concat (map define_block defines)
     @ [''#endif /* _KERNEL_CONFIG_DEFINES_H */'' @ [LF]]"

text \<open>\<^verbatim>\<open>generate_config_header\<close>: the file system afterwards and the returned flag.\<close>

text \<open>The list \<^verbatim>\<open>defines\<close> after the loop over the lines of the config file.\<close>

definition read_defines :: "string \<Rightarrow> macro_def list" where
  "read_defines text = fold header_line (file_lines text) []"

definition generate_config_header :: "fs \<Rightarrow> string \<Rightarrow> string \<Rightarrow> fs \<times> bool" where
  "generate_config_header files config_file header_file =
     (case files config_file of
        None \<Rightarrow> (files, False)
      | Some text \<Rightarrow>
          (let defines = read_defines text
           in (files(header_file \<mapsto> concat (header_writes defines)), True)))"

section \<open>Notions of the specification\<close>

text \<open>The four forms in which \<^verbatim>\<open>save\<close> writes an option, as the specification lists
  them: \<^verbatim>\<open>NAME=y\<close>, \<^verbatim>\<open>#NAME is not set\<close>, \<^verbatim>\<open>NAME=<decimal integer>\<close> and \<^verbatim>\<open>NAME="s"\<close>,
  for a non-empty name.\<close>

definition is_decimal :: "string \<Rightarrow> bool" where
  "is_decimal v =
     (let ds = (if v \<noteq> [] \<and> hd v = CHR ''-'' then tl v else v)
      in ds \<noteq> [] \<and> list_all is_digit ds)"

definition canonical_line :: "string \<Rightarrow> bool" where
  "canonical_line l =
     (if startswith l ''#'' then 12 < length l \<and> endswith l '' is not set''
      else CHR ''='' \<in> set l \<and>
           (let (name, v) = split_eq l
            in name \<noteq> [] \<and>
               (v = ''y'' \<or> is_decimal v \<or> (2 \<le> length v \<and> hd v = DQ \<and> last v = DQ))))"

text \<open>A config text that only uses the four forms: each of its lines, stripped of
  surrounding white space and of its terminator as the loader strips it, is one.\<close>

definition canonical_text :: "string \<Rightarrow> bool" where
  "canonical_text text = list_all (\<lambda>l. canonical_line (py_strip l)) (file_lines text)"

text \<open>The scenario of the specification: a config file of four lines.\<close>

definition scenario_text :: string where
  "scenario_text =
     ''CONFIG_PCI=y'' @ [LF] @
     ''# CONFIG_USB is not set'' @ [LF] @
     ''CONFIG_TIMER_HZ=100'' @ [LF] @
     ''CONFIG_NAME='' @ [DQ] @ ''LittleKernel'' @ [DQ] @ [LF]"



text \<open>An entry of the header is wrapped in its own guard when it is the closed block
  \<^verbatim>\<open>#ifndef NAME\<close>, \<^verbatim>\<open>#define NAME ...\<close>, \<^verbatim>\<open>#endif\<close>, followed by an empty line: the four strings
  \<open>a\<close>, \<open>b\<close>, \<open>c\<close>, \<open>d\<close>.\<close>

definition own_guard :: "string \<Rightarrow> string \<Rightarrow> string \<Rightarrow> string \<Rightarrow> bool" where
  "own_guard a b c d =
     (let name = butlast (drop 8 a); rest = drop (length name) (drop 8 b)
      in startswith a ''#ifndef '' \<and> endswith a [LF]
         \<and> startswith b ''#define '' \<and> startswith (drop 8 b) name
         \<and> startswith rest '' ''
         \<and> c = ''#endif'' @ [LF] \<and> d = [LF])"

text \<open>A sequence of lines that consists of such blocks and of nothing else.\<close>

fun own_guard_blocks :: "string list \<Rightarrow> bool" where
  "own_guard_blocks [] = True"
| "own_guard_blocks (a # b # c # d # ws) = (own_guard a b c d \<and> own_guard_blocks ws)"
| "own_guard_blocks ws = False"


section \<open>Notions of the round-trip proof\<close>

text \<open>A text without line terminators: it stays one line when it is written to a file and
  the file is read again.\<close>

definition plain :: "string \<Rightarrow> bool" where
  "plain s = (LF \<notin> set s \<and> CR \<notin> set s)"

text \<open>The values that a saved line gives back when it is loaded: \<open>True\<close>, an integer, or a
  string without line terminators. (\<open>False\<close> is written as a comment, which the loader
  skips.)\<close>

definition value_ok :: "pyval \<Rightarrow> bool" where
  "value_ok v = (case v of PBool b \<Rightarrow> b | PInt n \<Rightarrow> True | PStr s \<Rightarrow> plain s)"

text \<open>The options that a saved line gives back when it is loaded: the name is not empty,
  does not start with white space or \<^verbatim>\<open>#\<close>, and has no \<^verbatim>\<open>=\<close> and no line terminator in it;
  the value is one of the above.\<close>

definition savable :: "string \<Rightarrow> pyval \<Rightarrow> bool" where
  "savable k v =
     (k \<noteq> [] \<and> \<not> isspace (hd k) \<and> hd k \<noteq> CHR ''#'' \<and> CHR ''='' \<notin> set k \<and> plain k
      \<and> value_ok v)"

section \<open>Properties of the saver and the viewer\<close>

lemma set_sorted_items: "set (sorted_items config) = set config"
  by (simp add: sorted_items_def)

lemma concat_member_split:
  "x \<in> set xs \<Longrightarrow> \<exists>pre post. concat xs = pre @ x @ post"
proof -
  assume "x \<in> set xs"
  then obtain ys zs where "xs = ys @ x # zs" by (meson split_list)
  then have "concat xs = concat ys @ x @ concat zs" by simp
  then show ?thesis by blast
qed

lemma saved_text: "save_config config config_file files config_file = Some (concat (save_writes config))"
  by (simp add: save_config_def)

text \<open>
  Claim C10. Both \<^verbatim>\<open>save_config\<close> and \<^verbatim>\<open>view_config\<close> test for a boolean before they test
  for an integer. So, although a boolean passes the integer test, an option that holds
  \<open>True\<close> is written as \<^verbatim>\<open>NAME=y\<close> and one that holds \<open>False\<close> as \<^verbatim>\<open>#NAME is not set\<close>,
  never as \<^verbatim>\<open>NAME=1\<close> or \<^verbatim>\<open>NAME=0\<close>. That line is among the strings that \<^verbatim>\<open>save_config\<close>
  writes; the config file holds, after the save, the concatenation of those strings, and
  so it holds that line with its line terminator; and the line is among those that the
  viewer prints.
\<close>

theorem boolean_never_saved_as_integer:
  assumes "(key, PBool b) \<in> set config"
  shows "isinstance_int (PBool b)
       \<and> option_line key (PBool b) = (if b then key @ ''=y'' else ''#'' @ key @ '' is not set'')
       \<and> option_line key (PBool b) \<noteq> key @ ''=1''
       \<and> option_line key (PBool b) \<noteq> key @ ''=0''
       \<and> option_line key (PBool b) @ [LF] \<in> set (save_writes config)
       \<and> save_config config config_file files config_file = Some (concat (save_writes config))
       \<and> (\<exists>pre post. save_config config config_file files config_file
                        = Some (pre @ (option_line key (PBool b) @ [LF]) @ post))
       \<and> option_line key (PBool b) \<in> set (view_config config)"
proof -
  have line: "option_line key (PBool b) = (if b then key @ ''=y'' else ''#'' @ key @ '' is not set'')"
    by (simp add: option_line_def)
  have mem: "(key, PBool b) \<in> set (sorted_items config)"
    using assms by (simp add: set_sorted_items)
  have w: "option_line key (PBool b) @ [LF] \<in> set (save_writes config)"
    unfolding save_writes_def using mem by force
  have v: "option_line key (PBool b) \<in> set (view_config config)"
    unfolding view_config_def using mem by force
  have len: "length (''#'' @ key @ '' is not set'') \<noteq> length (key @ r)" if "length r = 2" for r
    using that by simp
  have n1: "option_line key (PBool b) \<noteq> key @ ''=1''"
  proof (cases b)
    case True
    then show ?thesis by (simp add: option_line_def)
  next
    case False
    then show ?thesis using len [of "''=1''"] by (auto simp: option_line_def)
  qed
  have n0: "option_line key (PBool b) \<noteq> key @ ''=0''"
  proof (cases b)
    case True
    then show ?thesis by (simp add: option_line_def)
  next
    case False
    then show ?thesis using len [of "''=0''"] by (auto simp: option_line_def)
  qed
  have f: "save_config config config_file files config_file = Some (concat (save_writes config))"
    by (rule saved_text)
  from concat_member_split [OF w] obtain pre post where
    "concat (save_writes config) = pre @ (option_line key (PBool b) @ [LF]) @ post"
    by blast
  with f have d: "\<exists>pre post. save_config config config_file files config_file
                        = Some (pre @ (option_line key (PBool b) @ [LF]) @ post)"
    by auto
  have i: "isinstance_int (PBool b)" by simp
  from i line n1 n0 w f d v show ?thesis by (intro conjI)
qed

theorem boolean_never_saved_as_integer_witness:
  "save_config [(''CONFIG_PCI'', PBool True), (''CONFIG_USB'', PBool False)] ''.config'' Map.empty
     ''.config''
     = Some (concat (save_writes [(''CONFIG_PCI'', PBool True), (''CONFIG_USB'', PBool False)]))
   \<and> save_writes [(''CONFIG_PCI'', PBool True), (''CONFIG_USB'', PBool False)]
     = [''# LittleKernel Configuration'' @ [LF], [LF], ''CONFIG_PCI=y'' @ [LF],
        ''#CONFIG_USB is not set'' @ [LF]]"
proof -
  have m: "(''CONFIG_USB'', PBool False)
             \<in> set [(''CONFIG_PCI'', PBool True), (''CONFIG_USB'', PBool False)]"
    by simp
  have e: "save_writes [(''CONFIG_PCI'', PBool True), (''CONFIG_USB'', PBool False)]
     = [''# LittleKernel Configuration'' @ [LF], [LF], ''CONFIG_PCI=y'' @ [LF],
        ''#CONFIG_USB is not set'' @ [LF]]"
    by code_simp
  note t = boolean_never_saved_as_integer [OF m, of "''.config''" Map.empty]
  have s: "save_config [(''CONFIG_PCI'', PBool True), (''CONFIG_USB'', PBool False)] ''.config''
             Map.empty ''.config''
     = Some (concat (save_writes [(''CONFIG_PCI'', PBool True), (''CONFIG_USB'', PBool False)]))"
    by (rule t [THEN conjunct2, THEN conjunct2, THEN conjunct2, THEN conjunct2,
                THEN conjunct2, THEN conjunct1])
  from s e show ?thesis by (intro conjI)
qed

section \<open>Properties of the loader\<close>

text \<open>A line that starts with \<^verbatim>\<open>#\<close> never reaches the branch written for
  \<^verbatim>\<open>is not set\<close> lines: the loader leaves the model as it is.\<close>

lemma load_line_comment: "startswith (py_strip raw) ''#'' \<Longrightarrow> load_line raw config = config"
  by (simp add: load_line_def)

lemma convert_value_True: "convert_value v = PBool True \<longleftrightarrow> v = ''y''"
  by (auto simp: convert_value_def startswith_def split: option.splits)

lemma convert_value_False: "convert_value v = PBool False \<longleftrightarrow> v = ''n''"
  by (auto simp: convert_value_def startswith_def split: option.splits)

text \<open>
  Claim C2 (the code departs from it). The loader of the editor does not turn the line
  \<^verbatim>\<open># CONFIG_USB is not set\<close> into the option \<^verbatim>\<open>CONFIG_USB\<close> with value \<open>False\<close>: the
  line is skipped and the model stays empty. The saver writes a false option as
  \<^verbatim>\<open>#CONFIG_USB is not set\<close>, and loading what it saved loses the option as well.
\<close>

theorem disabled_line_ignored_by_loader:
  "load_config [''.config'' \<mapsto> ''# CONFIG_USB is not set'' @ [LF]] ''.config'' = []
 \<and> save_writes [(''CONFIG_USB'', PBool False)]
     = [''# LittleKernel Configuration'' @ [LF], [LF], ''#CONFIG_USB is not set'' @ [LF]]
 \<and> load_config (save_config [(''CONFIG_USB'', PBool False)] ''.config'' Map.empty) ''.config'' = []"
  by code_simp

text \<open>
  Claim C3 (the code departs from it). On the four lines of the scenario the loader of
  the editor yields three options, not four: \<^verbatim>\<open>CONFIG_USB\<close> is missing. The header
  compiler reads four entries from the same text and writes, as its thirteenth to
  fifteenth strings, the block for \<^verbatim>\<open>CONFIG_TIMER_HZ\<close> that the scenario expects.
\<close>

theorem scenario_load_and_compile:
  "load_config [''.config'' \<mapsto> scenario_text] ''.config''
     = [(''CONFIG_PCI'', PBool True), (''CONFIG_TIMER_HZ'', PInt 100),
        (''CONFIG_NAME'', PStr ''LittleKernel'')]
 \<and> read_defines scenario_text
     = [(''CONFIG_PCI'', ''1'', ''boolean''), (''CONFIG_USB'', ''0'', ''disabled''),
        (''CONFIG_TIMER_HZ'', ''100'', ''numeric''),
        (''CONFIG_NAME'', [DQ] @ ''LittleKernel'' @ [DQ], ''string'')]
 \<and> take 3 (drop 12 (header_writes (read_defines scenario_text)))
     = [''#ifndef CONFIG_TIMER_HZ'' @ [LF],
        ''#define CONFIG_TIMER_HZ 100  /* numeric */'' @ [LF],
        ''#endif'' @ [LF]]
 \<and> snd (generate_config_header [''.config'' \<mapsto> scenario_text] ''.config''
            ''kernel_config_defines.h'')"
  by code_simp

section \<open>The round trip of load and save\<close>

subsection \<open>Stripping\<close>

lemma strip_by_Nil [simp]: "strip_by p [] = []"
  by (simp add: strip_by_def)

lemma strip_by_snoc: "p c \<Longrightarrow> strip_by p (s @ [c]) = strip_by p s"
proof (cases "\<forall>x\<in>set s. p x")
  case True
  assume "p c"
  have "\<forall>x\<in>set s. p x \<Longrightarrow> dropWhile p (s @ [c]) = dropWhile p [c]" for s
    by (induction s) auto
  then have "dropWhile p (s @ [c]) = dropWhile p [c]" using True by blast
  then have a: "dropWhile p (s @ [c]) = []" using \<open>p c\<close> by simp
  have b: "dropWhile p s = []" using True by (induction s) auto
  show ?thesis by (simp add: strip_by_def a b)
next
  case False
  assume "p c"
  from False obtain x where "x \<in> set s" "\<not> p x" by blast
  then have "dropWhile p (s @ [c]) = dropWhile p s @ [c]"
    by (rule dropWhile_append1)
  with \<open>p c\<close> show ?thesis by (simp add: strip_by_def)
qed

lemma set_strip_by: "set (strip_by p s) \<subseteq> set s"
proof -
  have "set (dropWhile p (rev (dropWhile p s))) \<subseteq> set (rev (dropWhile p s))"
    by (rule set_dropWhileD [THEN subsetI])
  also have "\<dots> \<subseteq> set s"
    using set_dropWhileD [of _ p s] by auto
  finally show ?thesis by (simp add: strip_by_def)
qed

lemma strip_by_id:
  assumes "s \<noteq> []" "\<not> p (hd s)" "\<not> p (last s)"
  shows "strip_by p s = s"
proof -
  have a: "dropWhile p s = s" using assms by (cases s) auto
  have "dropWhile p (rev s) = rev s"
    using assms by (cases "rev s") (auto simp: last_rev [symmetric] hd_rev)
  with a show ?thesis by (simp add: strip_by_def)
qed

lemma strip_by_hd:
  assumes "strip_by p s \<noteq> []"
  shows "\<not> p (hd (strip_by p s))"
proof -
  let ?t = "dropWhile p s"
  from assms have t: "?t \<noteq> []"
    by (cases "dropWhile p s = []") (simp_all add: strip_by_def)
  then have ht: "\<not> p (hd ?t)" by (rule hd_dropWhile)
  have "rev ?t = takeWhile p (rev ?t) @ dropWhile p (rev ?t)" by simp
  then have "?t = rev (dropWhile p (rev ?t)) @ rev (takeWhile p (rev ?t))"
    by (metis rev_append rev_rev_ident)
  then have "?t = strip_by p s @ rev (takeWhile p (rev ?t))"
    by (simp add: strip_by_def)
  with assms have "hd ?t = hd (strip_by p s)" by (metis hd_append2)
  with ht show ?thesis by simp
qed

lemma strip_by_last:
  assumes "strip_by p s \<noteq> []"
  shows "\<not> p (last (strip_by p s))"
proof -
  let ?u = "dropWhile p (rev (dropWhile p s))"
  from assms have u: "?u \<noteq> []" by (simp add: strip_by_def)
  then have "\<not> p (hd ?u)" by (rule hd_dropWhile)
  moreover have "last (strip_by p s) = hd ?u"
    using u by (simp add: strip_by_def last_rev)
  ultimately show ?thesis by simp
qed

subsection \<open>Lines of a file\<close>

lemma file_lines_shape_all:
  "\<forall>l\<in>set (file_lines t). l \<noteq> [] \<and> CR \<notin> set l \<and> LF \<notin> set (butlast l)"
proof (induction t rule: file_lines.induct)
  case 1
  show ?case by simp
next
  case (2 c cs)
  show ?case
  proof (cases "c = LF")
    case True
    then have "file_lines (c # cs) = [LF] # file_lines cs" by simp
    with 2(1) [OF True] show ?thesis by simp
  next
    case nl: False
    show ?thesis
    proof (cases "c = CR")
      case True
      show ?thesis
      proof (cases cs)
        case Nil
        with nl True show ?thesis by simp
      next
        case (Cons d ds)
        show ?thesis
        proof (cases "d = LF")
          case T: True
          have "file_lines (c # cs) = [LF] # file_lines ds" using nl True Cons T by simp
          with 2(2) [OF nl True Cons T] show ?thesis by simp
        next
          case F: False
          have "file_lines (c # cs) = [LF] # file_lines cs" using nl True Cons F by simp
          with 2(3) [OF nl True Cons F] show ?thesis by simp
        qed
      qed
    next
      case False
      note ih = 2(4) [OF nl False]
      show ?thesis
      proof (cases "file_lines cs")
        case Nil
        then have "file_lines (c # cs) = [[c]]" using nl False by simp
        then show ?thesis using nl False by simp
      next
        case (Cons l ls)
        then have e: "file_lines (c # cs) = (c # l) # ls" using nl False by simp
        from ih Cons have l: "l \<noteq> [] \<and> CR \<notin> set l \<and> LF \<notin> set (butlast l)"
          and ls: "\<forall>x\<in>set ls. x \<noteq> [] \<and> CR \<notin> set x \<and> LF \<notin> set (butlast x)"
          by simp_all
        from l nl False have "c # l \<noteq> [] \<and> CR \<notin> set (c # l) \<and> LF \<notin> set (butlast (c # l))"
          by simp
        with ls show ?thesis unfolding e by simp
      qed
    qed
  qed
qed

lemma file_lines_shape:
  "l \<in> set (file_lines t) \<Longrightarrow> l \<noteq> [] \<and> CR \<notin> set l \<and> LF \<notin> set (butlast l)"
  using file_lines_shape_all by blast

lemma file_lines_plain_line:
  "plain b \<Longrightarrow> file_lines (b @ LF # rest) = (b @ [LF]) # file_lines rest"
proof (induction b)
  case Nil
  show ?case by simp
next
  case (Cons c b)
  from Cons.prems have c: "c \<noteq> LF" "c \<noteq> CR" and b: "plain b"
    by (auto simp add: plain_def)
  have "file_lines ((c # b) @ LF # rest)
          = (case file_lines (b @ LF # rest) of [] \<Rightarrow> [[c]] | l # ls \<Rightarrow> (c # l) # ls)"
    using c by simp
  also have "file_lines (b @ LF # rest) = (b @ [LF]) # file_lines rest"
    using b by (rule Cons.IH)
  finally show ?case by simp
qed

lemma file_lines_concat:
  "list_all plain bs \<Longrightarrow> file_lines (concat (map (\<lambda>b. b @ [LF]) bs)) = map (\<lambda>b. b @ [LF]) bs"
proof (induction bs)
  case Nil
  show ?case by simp
next
  case (Cons b bs)
  then have b: "plain b" and bs: "list_all plain bs" by simp_all
  have "file_lines (concat (map (\<lambda>b. b @ [LF]) (b # bs)))
          = file_lines (b @ LF # concat (map (\<lambda>b. b @ [LF]) bs))"
    by simp
  also have "\<dots> = (b @ [LF]) # file_lines (concat (map (\<lambda>b. b @ [LF]) bs))"
    using b by (rule file_lines_plain_line)
  also have "file_lines (concat (map (\<lambda>b. b @ [LF]) bs)) = map (\<lambda>b. b @ [LF]) bs"
    using bs by (rule Cons.IH)
  finally show ?case by simp
qed

lemma plain_subset: "set s \<subseteq> set t \<Longrightarrow> plain t \<Longrightarrow> plain s"
  unfolding plain_def by blast

lemma isspace_LF: "isspace LF"
  by (simp add: isspace_def)

lemma py_strip_line_plain:
  assumes "raw \<in> set (file_lines t)"
  shows "plain (py_strip raw)"
proof -
  from file_lines_shape [OF assms]
  have ne: "raw \<noteq> []" and cr: "CR \<notin> set raw" and lf: "LF \<notin> set (butlast raw)" by simp_all
  have raw: "butlast raw @ [last raw] = raw" using ne by simp
  have sub: "set (butlast raw) \<subseteq> set raw" by (rule subsetI) (rule in_set_butlastD)
  show ?thesis
  proof (cases "last raw = LF")
    case True
    have "strip_by isspace (butlast raw @ [LF]) = strip_by isspace (butlast raw)"
      using isspace_LF by (rule strip_by_snoc)
    then have "py_strip raw = strip_by isspace (butlast raw)"
      using raw True by (simp add: py_strip_def)
    moreover have "set (strip_by isspace (butlast raw)) \<subseteq> set (butlast raw)"
      by (rule set_strip_by)
    moreover have "plain (butlast raw)"
      unfolding plain_def using lf cr sub by blast
    ultimately show ?thesis using plain_subset by simp
  next
    case False
    have "set raw = set (butlast raw) \<union> {last raw}"
      using raw by (metis list.set(1) list.set(2) set_append)
    with False lf have "LF \<notin> set raw" by simp
    with cr have "plain raw" by (simp add: plain_def)
    moreover have "set (py_strip raw) \<subseteq> set raw"
      unfolding py_strip_def by (rule set_strip_by)
    ultimately show ?thesis using plain_subset by blast
  qed
qed

subsection \<open>Digits\<close>

lemma is_digit_digit_char: "n < 10 \<Longrightarrow> is_digit (digit_char n)"
  by (simp add: is_digit_def digit_char_def)

lemma digit_val_digit_char: "n < 10 \<Longrightarrow> digit_val (digit_char n) = n"
  by (simp add: digit_val_def digit_char_def)

lemma is_digit_facts:
  "is_digit c \<Longrightarrow> \<not> isspace c \<and> \<not> int_space c \<and> c \<noteq> CHR ''-'' \<and> c \<noteq> CHR ''+'' \<and> c \<noteq> DQ
     \<and> c \<noteq> LF \<and> c \<noteq> CR \<and> c \<noteq> CHR ''y'' \<and> c \<noteq> CHR ''n''"
  by (auto simp: is_digit_def isspace_def int_space_def)

lemma str_nat_digits: "str_nat n \<noteq> [] \<and> list_all is_digit (str_nat n)"
proof (induction n rule: str_nat.induct)
  case (1 n)
  show ?case
  proof (cases "n < 10")
    case True
    then show ?thesis by (subst (1 2) str_nat.simps) (simp add: is_digit_digit_char)
  next
    case False
    with 1 show ?thesis by (subst (1 2) str_nat.simps) (simp add: is_digit_digit_char)
  qed
qed

lemma digits_value_digits:
  "list_all is_digit ds \<Longrightarrow>
   digits_value ds acc = Some (foldl (\<lambda>a c. a * 10 + digit_val c) acc ds)"
  by (induction ds arbitrary: acc) auto

lemma foldl_str_nat: "foldl (\<lambda>a c. a * 10 + digit_val c) 0 (str_nat n) = n"
proof (induction n rule: str_nat.induct)
  case (1 n)
  show ?case
  proof (cases "n < 10")
    case True
    then have "str_nat n = [digit_char n]" by (subst str_nat.simps) simp
    with True show ?thesis by (simp add: digit_val_digit_char)
  next
    case False
    then have s: "str_nat n = str_nat (n div 10) @ [digit_char (n mod 10)]"
      by (subst str_nat.simps) simp
    have ih: "foldl (\<lambda>a c. a * 10 + digit_val c) 0 (str_nat (n div 10)) = n div 10"
      using 1 False by simp
    have "n mod 10 < 10" by simp
    then have d: "digit_val (digit_char (n mod 10)) = n mod 10" by (rule digit_val_digit_char)
    show ?thesis unfolding s by (simp add: ih d)
  qed
qed

lemma py_int_digits:
  assumes "ds \<noteq> []" "list_all is_digit ds"
  shows "py_int ds = Some (int (foldl (\<lambda>a c. a * 10 + digit_val c) 0 ds))"
    and "py_int (CHR ''-'' # ds) = Some (- int (foldl (\<lambda>a c. a * 10 + digit_val c) 0 ds))"
proof -
  from assms obtain d ds' where ds: "ds = d # ds'" and d: "is_digit d"
    by (cases ds) auto
  have l: "is_digit (last ds)" using assms by (simp add: list_all_iff)
  have s1: "strip_by int_space ds = ds"
    using assms(1) d l ds is_digit_facts by (intro strip_by_id) auto
  have s2: "strip_by int_space (CHR ''-'' # ds) = CHR ''-'' # ds"
    using assms(1) l is_digit_facts by (intro strip_by_id) (auto simp: int_space_def)
  show "py_int ds = Some (int (foldl (\<lambda>a c. a * 10 + digit_val c) 0 ds))"
    unfolding py_int_def s1 using d is_digit_facts [OF d] assms(2)
    by (simp add: ds digits_value_digits)
  show "py_int (CHR ''-'' # ds) = Some (- int (foldl (\<lambda>a c. a * 10 + digit_val c) 0 ds))"
    unfolding py_int_def s2 using d assms(2)
    by (simp add: ds digits_value_digits)
qed

lemma py_int_py_str_int: "py_int (py_str_int i) = Some i"
  using py_int_digits [of "str_nat (nat i)"] py_int_digits [of "str_nat (nat (- i))"]
        str_nat_digits [of "nat i"] str_nat_digits [of "nat (- i)"]
  by (simp add: py_str_int_def foldl_str_nat)

subsection \<open>Plain text\<close>

lemma plain_Nil [simp]: "plain []"
  by (simp add: plain_def)

lemma plain_append [simp]: "plain (a @ b) \<longleftrightarrow> plain a \<and> plain b"
  by (auto simp add: plain_def)

lemma plain_Cons [simp]: "plain (c # s) \<longleftrightarrow> c \<noteq> LF \<and> c \<noteq> CR \<and> plain s"
  by (auto simp add: plain_def)

lemma plain_digits: "list_all is_digit ds \<Longrightarrow> plain ds"
proof (induction ds)
  case Nil
  show ?case by simp
next
  case (Cons d ds)
  then have "is_digit d" and "plain ds" by simp_all
  with is_digit_facts [of d] show ?case by simp
qed

lemma plain_py_str_int: "plain (py_str_int n)"
  using str_nat_digits [of "nat n"] str_nat_digits [of "nat (- n)"]
  by (simp add: py_str_int_def plain_digits)

subsection \<open>One saved line, loaded again\<close>

lemma split_eq_append:
  assumes "CHR ''='' \<notin> set k"
  shows "split_eq (k @ CHR ''='' # r) = (k, r)"
proof -
  from assms have a: "x \<in> set k \<Longrightarrow> x \<noteq> CHR ''=''" for x by auto
  have t: "takeWhile (\<lambda>c. c \<noteq> CHR ''='') (k @ CHR ''='' # r)
             = k @ takeWhile (\<lambda>c. c \<noteq> CHR ''='') (CHR ''='' # r)"
    using a by (rule takeWhile_append2)
  have d: "dropWhile (\<lambda>c. c \<noteq> CHR ''='') (k @ CHR ''='' # r)
             = dropWhile (\<lambda>c. c \<noteq> CHR ''='') (CHR ''='' # r)"
    using a by (rule dropWhile_append2)
  show ?thesis unfolding split_eq_def t d by simp
qed

lemma py_strip_saved:
  assumes "s \<noteq> []" "\<not> isspace (hd s)" "\<not> isspace (last s)"
  shows "py_strip (s @ [LF]) = s"
proof -
  have "strip_by isspace (s @ [LF]) = strip_by isspace s"
    using isspace_LF by (rule strip_by_snoc)
  also have "\<dots> = s" using assms by (rule strip_by_id)
  finally show ?thesis by (simp add: py_strip_def)
qed

lemma load_line_saved:
  assumes "k \<noteq> []" "\<not> isspace (hd k)" "hd k \<noteq> CHR ''#''" "CHR ''='' \<notin> set k"
      and "r \<noteq> []" "\<not> isspace (last r)"
  shows "load_line ((k @ CHR ''='' # r) @ [LF]) c = dict_set k (convert_value r) c"
proof -
  let ?s = "k @ CHR ''='' # r"
  have s: "py_strip (?s @ [LF]) = ?s"
  proof (rule py_strip_saved)
    show "?s \<noteq> []" by simp
    show "\<not> isspace (hd ?s)" using assms(1,2) by simp
    show "\<not> isspace (last ?s)" using assms(5,6) by simp
  qed
  have h: "\<not> startswith ?s ''#''"
    using assms(1,3) by (cases k) (simp_all add: startswith_def)
  have n: "?s \<noteq> []" by simp
  have e: "CHR ''='' \<in> set ?s" by simp
  have sp: "split_eq ?s = (k, r)" using assms(4) by (rule split_eq_append)
  show ?thesis unfolding load_line_def s Let_def using h n e sp by simp
qed

lemma convert_value_y: "convert_value ''y'' = PBool True"
  by (simp add: convert_value_def startswith_def)

lemma convert_value_quoted: "convert_value (DQ # s @ [DQ]) = PStr s"
proof -
  have a: "startswith (DQ # s @ [DQ]) [DQ]" by (simp add: startswith_def)
  have b: "endswith (DQ # s @ [DQ]) [DQ]" by (simp add: endswith_def)
  have c: "py_slice (DQ # s @ [DQ]) 1 (- 1) = s"
    by (simp add: py_slice_def slice_bound_def Let_def)
  show ?thesis unfolding convert_value_def using a b c by simp
qed

lemma py_str_int_shape:
  "py_str_int n \<noteq> [] \<and> hd (py_str_int n) \<noteq> DQ \<and> hd (py_str_int n) \<noteq> CHR ''y''
   \<and> hd (py_str_int n) \<noteq> CHR ''n'' \<and> \<not> isspace (last (py_str_int n))"
proof -
  have d: "str_nat m \<noteq> [] \<and> is_digit (hd (str_nat m)) \<and> is_digit (last (str_nat m))" for m
    using str_nat_digits [of m] by (cases "str_nat m") (auto simp add: list_all_iff)
  show ?thesis
  proof (cases "n < 0")
    case True
    then have e: "py_str_int n = CHR ''-'' # str_nat (nat (- n))" by (simp add: py_str_int_def)
    show ?thesis unfolding e using d [of "nat (- n)"] is_digit_facts [of "last (str_nat (nat (- n)))"]
      by simp
  next
    case False
    then have e: "py_str_int n = str_nat (nat n)" by (simp add: py_str_int_def)
    show ?thesis unfolding e
      using d [of "nat n"] is_digit_facts [of "last (str_nat (nat n))"]
            is_digit_facts [of "hd (str_nat (nat n))"]
      by simp
  qed
qed

lemma convert_value_py_str_int: "convert_value (py_str_int n) = PInt n"
proof -
  note s = py_str_int_shape [of n]
  have a: "\<not> startswith (py_str_int n) [DQ]"
    using s by (cases "py_str_int n") (simp_all add: startswith_def)
  have y: "py_str_int n \<noteq> ''y''" using s by (cases "py_str_int n") auto
  have no: "py_str_int n \<noteq> ''n''" using s by (cases "py_str_int n") auto
  show ?thesis unfolding convert_value_def using a y no by (simp add: py_int_py_str_int)
qed

lemma reload_option:
  assumes "savable k v"
  shows "load_line (option_line k v @ [LF]) c = dict_set k v c"
proof -
  from assms have k: "k \<noteq> []" "\<not> isspace (hd k)" "hd k \<noteq> CHR ''#''" "CHR ''='' \<notin> set k"
    by (simp_all add: savable_def)
  note l = load_line_saved [OF k]
  show ?thesis
  proof (cases v)
    case (PBool b)
    with assms have b by (simp add: savable_def value_ok_def)
    then have o: "option_line k v = k @ CHR ''='' # ''y''" using PBool by (simp add: option_line_def)
    have "\<not> isspace (last ''y'')" by (simp add: isspace_def)
    then have "load_line ((k @ CHR ''='' # ''y'') @ [LF]) c = dict_set k (convert_value ''y'') c"
      by (intro l) simp_all
    then show ?thesis unfolding o convert_value_y using PBool \<open>b\<close> by simp
  next
    case (PInt n)
    then have o: "option_line k v = k @ CHR ''='' # py_str_int n" by (simp add: option_line_def)
    note s = py_str_int_shape [of n]
    have "load_line ((k @ CHR ''='' # py_str_int n) @ [LF]) c
            = dict_set k (convert_value (py_str_int n)) c"
      using s by (intro l) simp_all
    then show ?thesis unfolding o convert_value_py_str_int using PInt by simp
  next
    case (PStr s)
    then have o: "option_line k v = k @ CHR ''='' # (DQ # s @ [DQ])" by (simp add: option_line_def)
    have "\<not> isspace (last (DQ # s @ [DQ]))" by (simp add: isspace_def)
    then have "load_line ((k @ CHR ''='' # (DQ # s @ [DQ])) @ [LF]) c
            = dict_set k (convert_value (DQ # s @ [DQ])) c"
      by (intro l) simp_all
    then show ?thesis unfolding o convert_value_quoted using PStr by simp
  qed
qed

lemma plain_option_line:
  assumes "savable k v"
  shows "plain (option_line k v)"
proof -
  from assms have k: "plain k" and v: "value_ok v" by (simp_all add: savable_def)
  show ?thesis
  proof (cases v)
    case (PBool b)
    with v have b by (simp add: value_ok_def)
    with PBool k show ?thesis by (simp add: option_line_def)
  next
    case (PInt n)
    with k show ?thesis by (simp add: option_line_def plain_py_str_int)
  next
    case (PStr s)
    with v have "plain s" by (simp add: value_ok_def)
    with PStr k show ?thesis by (simp add: option_line_def)
  qed
qed

subsection \<open>What the loader makes of a canonical line\<close>

lemma set_py_slice: "set (py_slice s a b) \<subseteq> set s"
proof -
  have "set (take n (drop m s)) \<subseteq> set s" for n m
    using set_take_subset [of n "drop m s"] set_drop_subset [of m s] by blast
  then show ?thesis by (simp add: py_slice_def Let_def)
qed

lemma value_ok_convert:
  assumes "plain v" and "v \<noteq> ''n''"
  shows "value_ok (convert_value v)"
proof (cases "startswith v [DQ] \<and> endswith v [DQ]")
  case True
  then have "convert_value v = PStr (py_slice v 1 (- 1))" by (simp add: convert_value_def)
  moreover have "plain (py_slice v 1 (- 1))"
    using set_py_slice assms(1) by (rule plain_subset)
  ultimately show ?thesis by (simp add: value_ok_def)
next
  case False
  then have q: "(startswith v [DQ] \<and> endswith v [DQ]) = False" by simp
  show ?thesis
  proof (cases "v = ''y''")
    case True
    then show ?thesis by (simp add: convert_value_y value_ok_def)
  next
    case y: False
    show ?thesis
    proof (cases "py_int v")
      case None
      then have "convert_value v = PStr v" unfolding convert_value_def q using y assms(2) by simp
      with assms(1) show ?thesis by (simp add: value_ok_def)
    next
      case (Some n)
      then have "convert_value v = PInt n" unfolding convert_value_def q using y assms(2) by simp
      then show ?thesis by (simp add: value_ok_def)
    qed
  qed
qed

lemma canonical_value_not_n:
  assumes "v = ''y'' \<or> is_decimal v \<or> (2 \<le> length v \<and> hd v = DQ \<and> last v = DQ)"
  shows "v \<noteq> ''n''"
proof
  assume "v = ''n''"
  with assms have "''n'' = ''y'' \<or> is_decimal ''n'' \<or> (2 \<le> length ''n'' \<and> hd ''n'' = DQ \<and> last ''n'' = DQ)"
    by simp
  then show False by (simp add: is_decimal_def is_digit_def)
qed

lemma load_line_skip:
  assumes "\<not> (py_strip raw \<noteq> [] \<and> \<not> startswith (py_strip raw) ''#'')"
  shows "load_line raw c = c"
proof -
  from assms have f: "(py_strip raw \<noteq> [] \<and> \<not> startswith (py_strip raw) ''#'') = False"
    by simp
  show ?thesis unfolding load_line_def Let_def f by simp
qed

lemma load_line_entry:
  assumes "py_strip raw \<noteq> []" and "\<not> startswith (py_strip raw) ''#''"
      and "CHR ''='' \<in> set (py_strip raw)" and "split_eq (py_strip raw) = (name, v)"
  shows "load_line raw c = dict_set name (convert_value v) c"
proof -
  from assms(1,2) have f: "(py_strip raw \<noteq> [] \<and> \<not> startswith (py_strip raw) ''#'') = True"
    by simp
  from assms(3) have g: "(CHR ''='' \<in> set (py_strip raw)) = True" by simp
  show ?thesis unfolding load_line_def Let_def f g assms(4) by simp
qed

lemma canonical_parts:
  assumes "canonical_line l" and "\<not> startswith l ''#''" and "split_eq l = (name, v)"
  shows "CHR ''='' \<in> set l" and "name \<noteq> []"
    and "v = ''y'' \<or> is_decimal v \<or> (2 \<le> length v \<and> hd v = DQ \<and> last v = DQ)"
proof -
  from assms(2) have ns: "startswith l ''#'' = False" by simp
  have eq: "canonical_line l
          = (CHR ''='' \<in> set l \<and> name \<noteq> []
             \<and> (v = ''y'' \<or> is_decimal v \<or> (2 \<le> length v \<and> hd v = DQ \<and> last v = DQ)))"
    unfolding canonical_line_def ns assms(3) Let_def by simp
  from assms(1) have a: "CHR ''='' \<in> set l \<and> name \<noteq> []
             \<and> (v = ''y'' \<or> is_decimal v \<or> (2 \<le> length v \<and> hd v = DQ \<and> last v = DQ))"
    unfolding eq .
  from a show "CHR ''='' \<in> set l" by (rule conjunct1)
  from a show "name \<noteq> []" by (rule conjunct2 [THEN conjunct1])
  from a show "v = ''y'' \<or> is_decimal v \<or> (2 \<le> length v \<and> hd v = DQ \<and> last v = DQ)"
    by (rule conjunct2 [THEN conjunct2])
qed

lemma split_eq_fst: "fst (split_eq l) = takeWhile (\<lambda>c. c \<noteq> CHR ''='') l"
  unfolding split_eq_def by (rule fst_conv)

lemma split_eq_snd: "snd (split_eq l) = tl (dropWhile (\<lambda>c. c \<noteq> CHR ''='') l)"
  unfolding split_eq_def by (rule snd_conv)

lemma set_split_eq_fst: "set (fst (split_eq l)) \<subseteq> set l"
proof
  fix x
  assume "x \<in> set (fst (split_eq l))"
  then have "x \<in> set (takeWhile (\<lambda>c. c \<noteq> CHR ''='') l)" unfolding split_eq_fst .
  then show "x \<in> set l" by (rule set_takeWhileD [THEN conjunct1])
qed

lemma set_tl_subset: "set (tl xs) \<subseteq> set xs"
  by (cases xs) auto

lemma set_split_eq_snd: "set (snd (split_eq l)) \<subseteq> set l"
proof
  fix x
  assume "x \<in> set (snd (split_eq l))"
  then have "x \<in> set (tl (dropWhile (\<lambda>c. c \<noteq> CHR ''='') l))" unfolding split_eq_snd .
  with set_tl_subset have "x \<in> set (dropWhile (\<lambda>c. c \<noteq> CHR ''='') l)" by (rule subsetD)
  then show "x \<in> set l" by (rule set_dropWhileD)
qed

lemma eq_notin_split_eq_fst: "CHR ''='' \<notin> set (fst (split_eq l))"
proof
  assume "CHR ''='' \<in> set (fst (split_eq l))"
  then have "CHR ''='' \<in> set (takeWhile (\<lambda>c. c \<noteq> CHR ''='') l)" unfolding split_eq_fst .
  then have "CHR ''='' \<noteq> CHR ''=''" by (rule set_takeWhileD [THEN conjunct2])
  then show False by simp
qed

lemma hd_takeWhile: "takeWhile P xs \<noteq> [] \<Longrightarrow> hd (takeWhile P xs) = hd xs"
  by (cases xs) (auto split: if_splits)

lemma hd_split_eq_fst: "fst (split_eq l) \<noteq> [] \<Longrightarrow> hd (fst (split_eq l)) = hd l"
  unfolding split_eq_fst by (rule hd_takeWhile)

lemma split_eq_parts:
  assumes "split_eq l = (name, v)" and "name \<noteq> []"
  shows "set name \<subseteq> set l" and "set v \<subseteq> set l" and "hd name = hd l"
    and "CHR ''='' \<notin> set name"
proof -
  have n: "fst (split_eq l) = name" unfolding assms(1) by (rule fst_conv)
  have v: "snd (split_eq l) = v" unfolding assms(1) by (rule snd_conv)
  show "set name \<subseteq> set l" using set_split_eq_fst [of l] unfolding n .
  show "set v \<subseteq> set l" using set_split_eq_snd [of l] unfolding v .
  from assms(2) have "fst (split_eq l) \<noteq> []" unfolding n .
  then have "hd (fst (split_eq l)) = hd l" by (rule hd_split_eq_fst)
  then show "hd name = hd l" unfolding n .
  show "CHR ''='' \<notin> set name" using eq_notin_split_eq_fst [of l] unfolding n .
qed

lemma canonical_entry:
  assumes "raw \<in> set (file_lines t)" and "canonical_line (py_strip raw)"
  shows "load_line raw c = c \<or> (\<exists>k v. savable k v \<and> load_line raw c = dict_set k v c)"
proof (cases "py_strip raw \<noteq> [] \<and> \<not> startswith (py_strip raw) ''#''")
  case False
  then have "load_line raw c = c" by (rule load_line_skip)
  then show ?thesis by (rule disjI1)
next
  case True
  let ?l = "py_strip raw"
  from True have ne: "?l \<noteq> []" and ns: "\<not> startswith ?l ''#''" by simp_all
  have pl: "plain ?l" using assms(1) by (rule py_strip_line_plain)
  obtain name v where sp: "split_eq ?l = (name, v)" by (cases "split_eq ?l")
  note c = canonical_parts [OF assms(2) ns sp]
  note p = split_eq_parts [OF sp c(2)]
  have ll: "load_line raw c = dict_set name (convert_value v) c"
    using ne ns c(1) sp by (rule load_line_entry)
  have "strip_by isspace raw \<noteq> []" using ne by (simp add: py_strip_def)
  then have "\<not> isspace (hd (strip_by isspace raw))" by (rule strip_by_hd)
  then have k2: "\<not> isspace (hd name)" unfolding p(3) by (simp add: py_strip_def)
  have k3: "hd name \<noteq> CHR ''#''"
  proof
    assume "hd name = CHR ''#''"
    then have "hd ?l = CHR ''#''" by (simp add: p(3))
    with ne have "startswith ?l ''#''" by (cases ?l) (simp_all add: startswith_def)
    with ns show False by (rule notE)
  qed
  have k5: "plain name" using p(1) pl by (rule plain_subset)
  have "plain v" using p(2) pl by (rule plain_subset)
  moreover have "v \<noteq> ''n''" using c(3) by (rule canonical_value_not_n)
  ultimately have k6: "value_ok (convert_value v)" by (rule value_ok_convert)
  from c(2) k2 k3 p(4) k5 k6 have "savable name (convert_value v)" by (simp add: savable_def)
  with ll have "savable name (convert_value v) \<and> load_line raw c = dict_set name (convert_value v) c"
    by (intro conjI)
  then have "\<exists>k v. savable k v \<and> load_line raw c = dict_set k v c" by (intro exI)
  then show ?thesis by (rule disjI2)
qed

subsection \<open>Dictionaries\<close>

lemma set_dict_set: "set (dict_set k v c) \<subseteq> insert (k, v) (set c)"
  by (induction c) (auto split: if_splits)

lemma keys_dict_set:
  "map fst (dict_set k v c) = (if k \<in> set (map fst c) then map fst c else map fst c @ [k])"
proof (induction c)
  case Nil
  show ?case by simp
next
  case (Cons x c)
  obtain k' v' where x: "x = (k', v')" by (cases x)
  show ?case
  proof (cases "k' = k")
    case True
    then show ?thesis by (simp add: x)
  next
    case False
    with Cons show ?thesis by (simp add: x)
  qed
qed

lemma distinct_dict_set: "distinct (map fst c) \<Longrightarrow> distinct (map fst (dict_set k v c))"
  by (simp add: keys_dict_set)

lemma dict_set_new: "k \<notin> set (map fst c) \<Longrightarrow> dict_set k v c = c @ [(k, v)]"
proof (induction c)
  case Nil
  show ?case by simp
next
  case (Cons x c)
  obtain k' v' where x: "x = (k', v')" by (cases x)
  from Cons.prems have n: "k' \<noteq> k" and r: "k \<notin> set (map fst c)" by (auto simp add: x)
  from Cons.IH [OF r] n show ?case by (simp add: x)
qed

lemma load_line_cases: "load_line raw c = c \<or> (\<exists>k v. load_line raw c = dict_set k v c)"
  unfolding load_line_def Let_def by (auto split: prod.splits)

lemma distinct_load_line: "distinct (map fst c) \<Longrightarrow> distinct (map fst (load_line raw c))"
  using load_line_cases [of raw c] by (auto simp add: distinct_dict_set)

lemma distinct_fold_load_line:
  "distinct (map fst c) \<Longrightarrow> distinct (map fst (fold load_line ls c))"
  by (induction ls arbitrary: c) (simp_all add: distinct_load_line)

lemma savable_dict_set:
  assumes "list_all (\<lambda>(k, v). savable k v) c" and "savable k v"
  shows "list_all (\<lambda>(k, v). savable k v) (dict_set k v c)"
  using assms set_dict_set [of k v c] unfolding list_all_iff by blast

lemma savable_fold:
  assumes "list_all (\<lambda>(k, v). savable k v) c"
      and "\<forall>raw\<in>set ls. raw \<in> set (file_lines t) \<and> canonical_line (py_strip raw)"
  shows "list_all (\<lambda>(k, v). savable k v) (fold load_line ls c)"
  using assms
proof (induction ls arbitrary: c)
  case Nil
  then show ?case by simp
next
  case (Cons raw ls)
  from Cons.prems(2) have r: "raw \<in> set (file_lines t)" "canonical_line (py_strip raw)"
    and rest: "\<forall>raw\<in>set ls. raw \<in> set (file_lines t) \<and> canonical_line (py_strip raw)"
    by simp_all
  have "list_all (\<lambda>(k, v). savable k v) (load_line raw c)"
    using canonical_entry [OF r, of c] Cons.prems(1) savable_dict_set [of c] by auto
  then have "list_all (\<lambda>(k, v). savable k v) (fold load_line ls (load_line raw c))"
    using rest by (rule Cons.IH)
  then show ?case by simp
qed

lemma fold_dict_set:
  "distinct (map fst (acc @ xs)) \<Longrightarrow> fold (\<lambda>(k, v). dict_set k v) xs acc = acc @ xs"
proof (induction xs arbitrary: acc)
  case Nil
  show ?case by simp
next
  case (Cons x xs)
  obtain k v where x: "x = (k, v)" by (cases x)
  from Cons.prems have "k \<notin> set (map fst acc)" by (auto simp add: x)
  then have d: "dict_set k v acc = acc @ [(k, v)]" by (rule dict_set_new)
  from Cons.prems have "distinct (map fst ((acc @ [(k, v)]) @ xs))" by (simp add: x)
  then have "fold (\<lambda>(k, v). dict_set k v) xs (acc @ [(k, v)]) = (acc @ [(k, v)]) @ xs"
    by (rule Cons.IH)
  then show ?case by (simp add: x d)
qed

lemma reload_fold:
  "list_all (\<lambda>(k, v). savable k v) xs \<Longrightarrow>
   fold load_line (map (\<lambda>(k, v). option_line k v @ [LF]) xs) acc
     = fold (\<lambda>(k, v). dict_set k v) xs acc"
proof (induction xs arbitrary: acc)
  case Nil
  show ?case by simp
next
  case (Cons x xs)
  obtain k v where x: "x = (k, v)" by (cases x)
  from Cons.prems have s: "savable k v" and rest: "list_all (\<lambda>(k, v). savable k v) xs"
    by (simp_all add: x)
  have "load_line (option_line k v @ [LF]) acc = dict_set k v acc"
    using s by (rule reload_option)
  with Cons.IH [OF rest] show ?case by (simp add: x)
qed

subsection \<open>The saved text\<close>

lemma distinct_sorted_items:
  assumes "distinct (map fst config)"
  shows "distinct (map fst (sorted_items config))"
proof -
  have "card (set (map fst (sorted_items config))) = card (set (map fst config))"
    by (simp add: set_sorted_items)
  also have "\<dots> = length (map fst config)" using assms by (rule distinct_card)
  also have "\<dots> = length (map fst (sorted_items config))" by (simp add: sorted_items_def)
  finally show ?thesis by (rule card_distinct)
qed

lemma save_writes_lines:
  "save_writes config
     = map (\<lambda>b. b @ [LF])
         (''# LittleKernel Configuration'' # [] # map (\<lambda>(k, v). option_line k v) (sorted_items config))"
proof -
  have "map (\<lambda>b. b @ [LF]) (map (\<lambda>(k, v). option_line k v) xs)
          = map (\<lambda>(k, v). option_line k v @ [LF]) xs" for xs :: config
    by (induction xs) auto
  then show ?thesis by (simp add: save_writes_def)
qed

lemma file_lines_saved:
  assumes "list_all (\<lambda>(k, v). savable k v) config"
  shows "file_lines (concat (save_writes config)) = save_writes config"
proof -
  have "list_all plain (map (\<lambda>(k, v). option_line k v) (sorted_items config))"
    using assms unfolding list_all_iff by (auto simp add: set_sorted_items plain_option_line)
  then have "list_all plain (''# LittleKernel Configuration'' # []
               # map (\<lambda>(k, v). option_line k v) (sorted_items config))"
    by simp
  then show ?thesis unfolding save_writes_lines by (rule file_lines_concat)
qed

lemma load_saved_head:
  "load_line [LF] (load_line (''# LittleKernel Configuration'' @ [LF]) c) = c"
proof -
  have "startswith (py_strip (''# LittleKernel Configuration'' @ [LF])) ''#''" by code_simp
  then have a: "load_line (''# LittleKernel Configuration'' @ [LF]) c = c"
    by (rule load_line_comment)
  have "py_strip [LF] = []" by code_simp
  then have b: "load_line [LF] c = c" by (simp add: load_line_def)
  show ?thesis unfolding a b ..
qed

lemma load_saved:
  assumes "list_all (\<lambda>(k, v). savable k v) config" and "distinct (map fst config)"
  shows "load_config (save_config config path files) path = sorted_items config"
proof -
  have s: "list_all (\<lambda>(k, v). savable k v) (sorted_items config)"
    using assms(1) unfolding list_all_iff by (simp add: set_sorted_items)
  have "load_config (save_config config path files) path
          = fold load_line (file_lines (concat (save_writes config))) []"
    by (simp add: load_config_def save_config_def)
  also have "\<dots> = fold load_line (save_writes config) []"
    using assms(1) by (simp add: file_lines_saved)
  also have "\<dots> = fold load_line (map (\<lambda>(k, v). option_line k v @ [LF]) (sorted_items config))
                      (load_line [LF] (load_line (''# LittleKernel Configuration'' @ [LF]) []))"
    by (simp add: save_writes_def)
  also have "\<dots> = fold load_line (map (\<lambda>(k, v). option_line k v @ [LF]) (sorted_items config)) []"
    unfolding load_saved_head ..
  also have "\<dots> = fold (\<lambda>(k, v). dict_set k v) (sorted_items config) []"
    using s by (rule reload_fold)
  also have "\<dots> = [] @ sorted_items config"
    using distinct_sorted_items [OF assms(2)] by (intro fold_dict_set) simp
  finally show ?thesis by simp
qed

text \<open>
  Claim C1. For every config text that only uses the four forms in which the saver
  writes an option, loading the file, saving the model and loading what was saved gives
  a model equal, as a dict, to the model of the first load: the same names with the same
  typed values. The second load yields the options of the first in the order of their
  names. (Lines of the form \<^verbatim>\<open>#NAME is not set\<close> are comments to both loads; the options of
  the first load are those of the other three forms.)
\<close>

theorem round_trip:
  assumes "files path = Some text" and "canonical_text text"
  shows "load_config (save_config (load_config files path) path' files') path'
           = sorted_items (load_config files path)
       \<and> map_of (load_config (save_config (load_config files path) path' files') path')
           = map_of (load_config files path)
       \<and> distinct (map fst (load_config files path))"
proof -
  let ?m = "load_config files path"
  have m: "?m = fold load_line (file_lines text) []"
    using assms(1) by (simp add: load_config_def)
  from assms(2) have
    "\<forall>raw\<in>set (file_lines text). raw \<in> set (file_lines text) \<and> canonical_line (py_strip raw)"
    by (simp add: canonical_text_def list_all_iff)
  with savable_fold [of "[]" "file_lines text" "text"]
  have s: "list_all (\<lambda>(k, v). savable k v) ?m" unfolding m by simp
  have d: "distinct (map fst ?m)"
    unfolding m by (rule distinct_fold_load_line) simp
  have l: "load_config (save_config ?m path' files') path' = sorted_items ?m"
    using s d by (rule load_saved)
  have "map_of (sorted_items ?m) = map_of ?m"
    using distinct_sorted_items [OF d] d set_sorted_items [of ?m]
    by (simp add: map_of_inject_set)
  with l d show ?thesis by simp
qed

theorem round_trip_witness:
  "canonical_text (''CONFIG_PCI=y'' @ [LF] @ ''#CONFIG_USB is not set'' @ [LF]
                   @ ''CONFIG_TIMER_HZ=100'' @ [LF]
                   @ ''CONFIG_NAME='' @ [DQ] @ ''LittleKernel'' @ [DQ] @ [LF])
 \<and> load_config
      (save_config
         (load_config [''.config'' \<mapsto> ''CONFIG_PCI=y'' @ [LF] @ ''#CONFIG_USB is not set'' @ [LF]
                   @ ''CONFIG_TIMER_HZ=100'' @ [LF]
                   @ ''CONFIG_NAME='' @ [DQ] @ ''LittleKernel'' @ [DQ] @ [LF]] ''.config'')
         ''.config'' Map.empty) ''.config''
     = [(''CONFIG_NAME'', PStr ''LittleKernel''), (''CONFIG_PCI'', PBool True),
        (''CONFIG_TIMER_HZ'', PInt 100)]"
proof -
  let ?t = "''CONFIG_PCI=y'' @ [LF] @ ''#CONFIG_USB is not set'' @ [LF]
                   @ ''CONFIG_TIMER_HZ=100'' @ [LF]
                   @ ''CONFIG_NAME='' @ [DQ] @ ''LittleKernel'' @ [DQ] @ [LF]"
  have f: "[''.config'' \<mapsto> ?t] ''.config'' = Some ?t" by simp
  have c: "canonical_text ?t" by code_simp
  have e: "sorted_items (load_config [''.config'' \<mapsto> ?t] ''.config'')
             = [(''CONFIG_NAME'', PStr ''LittleKernel''), (''CONFIG_PCI'', PBool True),
                (''CONFIG_TIMER_HZ'', PInt 100)]"
    by code_simp
  note t = round_trip [of "[''.config'' \<mapsto> ?t]" "''.config''" ?t "''.config''" Map.empty,
                       OF f c]
  from t [THEN conjunct1] e have
    "load_config (save_config (load_config [''.config'' \<mapsto> ?t] ''.config'') ''.config'' Map.empty)
       ''.config''
     = [(''CONFIG_NAME'', PStr ''LittleKernel''), (''CONFIG_PCI'', PBool True),
        (''CONFIG_TIMER_HZ'', PInt 100)]"
    by (rule trans)
  with c show ?thesis by (intro conjI)
qed

section \<open>Boolean tokens and value rendering\<close>

lemma lower_char_DQ: "lower_char DQ = DQ"
  by (simp add: lower_char_def)

lemma quoted_lower_hd: "startswith v [DQ] \<Longrightarrow> hd (py_lower v) = DQ"
  by (cases v) (auto simp: startswith_def py_lower_def lower_char_DQ)

text \<open>
  Claim C5, as amended. The header compiler gives \<open>1\<close> to a value whose lower-case form
  is \<^verbatim>\<open>y\<close>, \<^verbatim>\<open>yes\<close> or \<^verbatim>\<open>true\<close> and \<open>0\<close> to one whose lower-case form is \<^verbatim>\<open>n\<close>, \<^verbatim>\<open>no\<close> or
  \<^verbatim>\<open>false\<close>. The loader of the editor makes \<open>True\<close> of the literal \<^verbatim>\<open>y\<close> only and \<open>False\<close>
  of the literal \<^verbatim>\<open>n\<close> only; any other value that is not quoted and that \<^verbatim>\<open>int\<close> rejects
  stays a string.
\<close>

theorem boolean_tokens_per_path:
  "(py_lower v \<in> set [''y'', ''yes'', ''true'']
      \<longrightarrow> define_entry name v = (name, ''1'', ''boolean''))
 \<and> (py_lower v \<in> set [''n'', ''no'', ''false'']
      \<longrightarrow> define_entry name v = (name, ''0'', ''boolean''))
 \<and> (convert_value v = PBool True \<longleftrightarrow> v = ''y'')
 \<and> (convert_value v = PBool False \<longleftrightarrow> v = ''n'')
 \<and> (\<not> (startswith v [DQ] \<and> endswith v [DQ]) \<and> v \<noteq> ''y'' \<and> v \<noteq> ''n'' \<and> py_int v = None
      \<longrightarrow> convert_value v = PStr v)"
proof (intro conjI impI)
  assume h: "py_lower v \<in> set [''y'', ''yes'', ''true'']"
  have "\<not> startswith v [DQ]"
  proof
    assume "startswith v [DQ]"
    from quoted_lower_hd [OF this] h show False by auto
  qed
  with h show "define_entry name v = (name, ''1'', ''boolean'')"
    by (simp add: define_entry_def)
next
  assume h: "py_lower v \<in> set [''n'', ''no'', ''false'']"
  have nq: "\<not> startswith v [DQ]"
  proof
    assume "startswith v [DQ]"
    from quoted_lower_hd [OF this] h show False by auto
  qed
  from h have "py_lower v \<notin> set [''y'', ''yes'', ''true'']" by auto
  with h nq show "define_entry name v = (name, ''0'', ''boolean'')"
    by (simp add: define_entry_def)
next
  show "convert_value v = PBool True \<longleftrightarrow> v = ''y''" by (rule convert_value_True)
next
  show "convert_value v = PBool False \<longleftrightarrow> v = ''n''" by (rule convert_value_False)
next
  assume "\<not> (startswith v [DQ] \<and> endswith v [DQ]) \<and> v \<noteq> ''y'' \<and> v \<noteq> ''n'' \<and> py_int v = None"
  then show "convert_value v = PStr v"
    by (auto simp: convert_value_def)
qed

theorem boolean_tokens_per_path_witness:
  "define_entry ''CONFIG_PCI'' ''Yes'' = (''CONFIG_PCI'', ''1'', ''boolean'')
 \<and> define_entry ''CONFIG_PCI'' ''FALSE'' = (''CONFIG_PCI'', ''0'', ''boolean'')
 \<and> convert_value ''Yes'' = PStr ''Yes''"
proof -
  have a: "py_lower ''Yes'' \<in> set [''y'', ''yes'', ''true'']" by code_simp
  have b: "py_lower ''FALSE'' \<in> set [''n'', ''no'', ''false'']" by code_simp
  have c: "\<not> (startswith ''Yes'' [DQ] \<and> endswith ''Yes'' [DQ]) \<and> ''Yes'' \<noteq> ''y''
            \<and> ''Yes'' \<noteq> ''n'' \<and> py_int ''Yes'' = None"
    by code_simp
  note y = boolean_tokens_per_path [of "''Yes''" "''CONFIG_PCI''"]
  note n = boolean_tokens_per_path [of "''FALSE''" "''CONFIG_PCI''"]
  have 1: "define_entry ''CONFIG_PCI'' ''Yes'' = (''CONFIG_PCI'', ''1'', ''boolean'')"
    using y [THEN conjunct1] a by (rule mp)
  have 2: "define_entry ''CONFIG_PCI'' ''FALSE'' = (''CONFIG_PCI'', ''0'', ''boolean'')"
    using n [THEN conjunct2, THEN conjunct1] b by (rule mp)
  have 3: "convert_value ''Yes'' = PStr ''Yes''"
    using y [THEN conjunct2, THEN conjunct2, THEN conjunct2, THEN conjunct2] c by (rule mp)
  from 1 2 3 show ?thesis by (intro conjI)
qed

text \<open>The claim as the specification words it fails at the value \<^verbatim>\<open>n\<close>: it is not
  quoted, not \<^verbatim>\<open>y\<close> and not a number, yet the loader does not keep it as a string.\<close>

theorem editor_n_token_counterexample:
  "\<not> (startswith ''n'' [DQ] \<and> endswith ''n'' [DQ]) \<and> ''n'' \<noteq> ''y'' \<and> py_int ''n'' = None
   \<and> convert_value ''n'' \<noteq> PStr ''n''
   \<and> load_config [''.config'' \<mapsto> ''CONFIG_USB=n'' @ [LF]] ''.config''
       = [(''CONFIG_USB'', PBool False)]"
  by code_simp

text \<open>The header compiler appends to \<^verbatim>\<open>defines\<close>, line by line: what a line adds does not
  depend on what was read before it, and every line \<^verbatim>\<open>NAME=value\<close> of the config file adds
  one entry, whose block is part of the header that is written.\<close>

lemma header_line_append: "header_line raw defs = defs @ header_line raw []"
  by (simp add: header_line_def Let_def split: prod.splits)

lemma fold_header_line:
  "fold header_line ls acc = acc @ concat (map (\<lambda>r. header_line r []) ls)"
proof (induction ls arbitrary: acc)
  case Nil
  show ?case by simp
next
  case (Cons r ls)
  have "fold header_line (r # ls) acc = fold header_line ls (header_line r acc)" by simp
  also have "\<dots> = header_line r acc @ concat (map (\<lambda>r. header_line r []) ls)"
    by (rule Cons.IH)
  also have "header_line r acc = acc @ header_line r []" by (rule header_line_append)
  finally show ?case by simp
qed

lemma read_defines_lines:
  "read_defines text = concat (map (\<lambda>r. header_line r []) (file_lines text))"
  using fold_header_line [of "file_lines text" "[]"] by (simp add: read_defines_def)

lemma header_line_entry:
  assumes "py_strip raw \<noteq> []" and "\<not> startswith (py_strip raw) ''#''"
      and "CHR ''='' \<in> set (py_strip raw)"
  shows "header_line raw []
           = [define_entry (py_strip (fst (split_eq (py_strip raw))))
                           (py_strip (snd (split_eq (py_strip raw))))]"
  using assms by (simp add: header_line_def Let_def split: prod.splits)

lemma entry_in_read_defines:
  assumes "raw \<in> set (file_lines text)" and "header_line raw [] = [e]"
  shows "e \<in> set (read_defines text)"
proof -
  have "set (header_line raw []) \<subseteq> set (read_defines text)"
    unfolding read_defines_lines using assms(1) by auto
  with assms(2) show ?thesis by simp
qed

lemma concat_block_in_header:
  assumes "e \<in> set defines"
  shows "\<exists>pre post. concat (header_writes defines) = pre @ concat (define_block e) @ post"
proof -
  from assms obtain ys zs where d: "defines = ys @ e # zs"
    by (meson split_list)
  have "concat (header_writes defines)
          = (concat (take 4 (header_writes [])) @ concat (concat (map define_block ys)))
            @ concat (define_block e)
            @ (concat (concat (map define_block zs)) @ concat (drop 4 (header_writes [])))"
    by (simp add: d header_writes_def)
  then show ?thesis by blast
qed

lemma entry_tag_string:
  "(startswith v [DQ] \<and> endswith v [DQ]) \<longleftrightarrow> snd (snd (define_entry name v)) = ''string''"
  by (simp add: define_entry_def)

lemma token_not_wrapped:
  "\<not> (startswith ''1'' [DQ] \<and> endswith ''1'' [DQ])"
  "\<not> (startswith ''0'' [DQ] \<and> endswith ''0'' [DQ])"
  by (simp_all add: startswith_def)

lemma entry_value_wrapped:
  "(startswith v [DQ] \<and> endswith v [DQ])
     \<longleftrightarrow> (startswith (fst (snd (define_entry name v))) [DQ]
          \<and> endswith (fst (snd (define_entry name v))) [DQ])"
proof (cases "startswith v [DQ] \<and> endswith v [DQ]")
  case True
  then have "fst (snd (define_entry name v)) = DQ # py_strip_chars [DQ] v @ [DQ]"
    by (simp add: define_entry_def)
  with True show ?thesis by (simp add: startswith_def endswith_def)
next
  case False
  then have c: "(startswith v [DQ] \<and> endswith v [DQ]) = False" by simp
  have "fst (snd (define_entry name v)) = ''1'' \<or> fst (snd (define_entry name v)) = ''0''
          \<or> fst (snd (define_entry name v)) = v"
    unfolding define_entry_def c by simp
  then show ?thesis
  proof (elim disjE)
    assume "fst (snd (define_entry name v)) = ''1''"
    then show ?thesis unfolding c using token_not_wrapped(1) by simp
  next
    assume "fst (snd (define_entry name v)) = ''0''"
    then show ?thesis unfolding c using token_not_wrapped(2) by simp
  next
    assume "fst (snd (define_entry name v)) = v"
    then show ?thesis by simp
  qed
qed

text \<open>
  Claim C4, as amended. Every line \<^verbatim>\<open>NAME=value\<close> of the config file has its block in the
  header file that the compiler writes. In that block, a value that is not quoted and is
  not a boolean token stands in the \<^verbatim>\<open>#define\<close> line as it is, without quotes, and tagged
  \<^verbatim>\<open>numeric\<close>, whether or not it reads as an integer. A value is written between double
  quotes (after all its leading and trailing quotes are removed) and tagged \<^verbatim>\<open>string\<close>
  when, and only when, it starts and ends with a double quote: no unquoted value, boolean
  token or not, is tagged \<^verbatim>\<open>string\<close> or emitted between quotes.
\<close>

theorem unquoted_value_emitted_verbatim:
  assumes "files config_file = Some text"
      and "raw \<in> set (file_lines text)"
      and "py_strip raw \<noteq> []"
      and "\<not> startswith (py_strip raw) ''#''"
      and "CHR ''='' \<in> set (py_strip raw)"
      and "name = py_strip (fst (split_eq (py_strip raw)))"
      and "v = py_strip (snd (split_eq (py_strip raw)))"
  shows "(\<exists>pre post.
            fst (generate_config_header files config_file header_file) header_file
              = Some (pre @ concat (define_block (define_entry name v)) @ post))
       \<and> (\<not> (startswith v [DQ] \<and> endswith v [DQ])
            \<and> py_lower v \<notin> set [''y'', ''yes'', ''true'']
            \<and> py_lower v \<notin> set [''n'', ''no'', ''false'']
          \<longrightarrow> concat (define_block (define_entry name v))
                = ''#ifndef '' @ name @ [LF]
                  @ ''#define '' @ name @ '' '' @ v @ ''  /* numeric */'' @ [LF]
                  @ ''#endif'' @ [LF] @ [LF])
       \<and> (startswith v [DQ] \<and> endswith v [DQ]
          \<longrightarrow> concat (define_block (define_entry name v))
                = ''#ifndef '' @ name @ [LF]
                  @ ''#define '' @ name @ '' '' @ [DQ] @ py_strip_chars [DQ] v @ [DQ]
                  @ ''  /* string */'' @ [LF]
                  @ ''#endif'' @ [LF] @ [LF])
       \<and> ((startswith v [DQ] \<and> endswith v [DQ])
            \<longleftrightarrow> snd (snd (define_entry name v)) = ''string'')
       \<and> ((startswith v [DQ] \<and> endswith v [DQ])
            \<longleftrightarrow> (startswith (fst (snd (define_entry name v))) [DQ]
                 \<and> endswith (fst (snd (define_entry name v))) [DQ]))"
proof (intro conjI)
  have "header_line raw [] = [define_entry name v]"
    unfolding assms(6,7) using assms(3,4,5) by (rule header_line_entry)
  with assms(2) have "define_entry name v \<in> set (read_defines text)"
    by (rule entry_in_read_defines)
  then obtain pre post where
    "concat (header_writes (read_defines text))
       = pre @ concat (define_block (define_entry name v)) @ post"
    using concat_block_in_header by blast
  moreover have "fst (generate_config_header files config_file header_file) header_file
                   = Some (concat (header_writes (read_defines text)))"
    using assms(1) by (simp add: generate_config_header_def)
  ultimately show "\<exists>pre post.
            fst (generate_config_header files config_file header_file) header_file
              = Some (pre @ concat (define_block (define_entry name v)) @ post)"
    by auto
next
  show "\<not> (startswith v [DQ] \<and> endswith v [DQ])
            \<and> py_lower v \<notin> set [''y'', ''yes'', ''true'']
            \<and> py_lower v \<notin> set [''n'', ''no'', ''false'']
          \<longrightarrow> concat (define_block (define_entry name v))
                = ''#ifndef '' @ name @ [LF]
                  @ ''#define '' @ name @ '' '' @ v @ ''  /* numeric */'' @ [LF]
                  @ ''#endif'' @ [LF] @ [LF]"
    by (simp add: define_entry_def define_block_def)
next
  show "startswith v [DQ] \<and> endswith v [DQ]
          \<longrightarrow> concat (define_block (define_entry name v))
                = ''#ifndef '' @ name @ [LF]
                  @ ''#define '' @ name @ '' '' @ [DQ] @ py_strip_chars [DQ] v @ [DQ]
                  @ ''  /* string */'' @ [LF]
                  @ ''#endif'' @ [LF] @ [LF]"
    by (simp add: define_entry_def define_block_def)
next
  show "(startswith v [DQ] \<and> endswith v [DQ])
            \<longleftrightarrow> snd (snd (define_entry name v)) = ''string''"
    by (rule entry_tag_string)
next
  show "(startswith v [DQ] \<and> endswith v [DQ])
            \<longleftrightarrow> (startswith (fst (snd (define_entry name v))) [DQ]
                 \<and> endswith (fst (snd (define_entry name v))) [DQ])"
    by (rule entry_value_wrapped)
qed

theorem unquoted_value_emitted_verbatim_witness:
  "concat (define_block (define_entry ''CONFIG_ARCH'' ''x86''))
     = ''#ifndef CONFIG_ARCH'' @ [LF] @ ''#define CONFIG_ARCH x86  /* numeric */'' @ [LF]
       @ ''#endif'' @ [LF] @ [LF]
 \<and> fst (generate_config_header [''.config'' \<mapsto> ''CONFIG_ARCH=x86'' @ [LF]] ''.config''
            ''kernel_config_defines.h'') ''kernel_config_defines.h''
     = Some (''/* Auto-generated from .config - DO NOT EDIT */'' @ [LF] @
             ''#ifndef _KERNEL_CONFIG_DEFINES_H'' @ [LF] @
             ''#define _KERNEL_CONFIG_DEFINES_H'' @ [LF] @
             [LF] @
             ''#ifndef CONFIG_ARCH'' @ [LF] @
             ''#define CONFIG_ARCH x86  /* numeric */'' @ [LF] @
             ''#endif'' @ [LF] @
             [LF] @
             ''#endif /* _KERNEL_CONFIG_DEFINES_H */'' @ [LF])"
proof -
  have f: "[''.config'' \<mapsto> ''CONFIG_ARCH=x86'' @ [LF]] ''.config''
             = Some (''CONFIG_ARCH=x86'' @ [LF])"
    by simp
  have r: "''CONFIG_ARCH=x86'' @ [LF] \<in> set (file_lines (''CONFIG_ARCH=x86'' @ [LF]))"
    by code_simp
  have s: "py_strip (''CONFIG_ARCH=x86'' @ [LF]) = ''CONFIG_ARCH=x86''"
    by code_simp
  have h3: "py_strip (''CONFIG_ARCH=x86'' @ [LF]) \<noteq> []"
    unfolding s by simp
  have h4: "\<not> startswith (py_strip (''CONFIG_ARCH=x86'' @ [LF])) ''#''"
    unfolding s by code_simp
  have h5: "CHR ''='' \<in> set (py_strip (''CONFIG_ARCH=x86'' @ [LF]))"
    unfolding s by simp
  have h6: "''CONFIG_ARCH'' = py_strip (fst (split_eq (py_strip (''CONFIG_ARCH=x86'' @ [LF]))))"
    unfolding s by code_simp
  have h7: "''x86'' = py_strip (snd (split_eq (py_strip (''CONFIG_ARCH=x86'' @ [LF]))))"
    unfolding s by code_simp
  have c: "\<not> (startswith ''x86'' [DQ] \<and> endswith ''x86'' [DQ])
            \<and> py_lower ''x86'' \<notin> set [''y'', ''yes'', ''true'']
            \<and> py_lower ''x86'' \<notin> set [''n'', ''no'', ''false'']"
    by code_simp
  note t = unquoted_value_emitted_verbatim
             [of "[''.config'' \<mapsto> ''CONFIG_ARCH=x86'' @ [LF]]" "''.config''"
                 "''CONFIG_ARCH=x86'' @ [LF]" "''CONFIG_ARCH=x86'' @ [LF]" "''CONFIG_ARCH''"
                 "''x86''" "''kernel_config_defines.h''", OF f r h3 h4 h5 h6 h7]
  have e: "concat (define_block (define_entry ''CONFIG_ARCH'' ''x86''))
             = ''#ifndef '' @ ''CONFIG_ARCH'' @ [LF]
               @ ''#define '' @ ''CONFIG_ARCH'' @ '' '' @ ''x86'' @ ''  /* numeric */'' @ [LF]
               @ ''#endif'' @ [LF] @ [LF]"
    using t [THEN conjunct2, THEN conjunct1] c by (rule mp)
  have e': "concat (define_block (define_entry ''CONFIG_ARCH'' ''x86''))
     = ''#ifndef CONFIG_ARCH'' @ [LF] @ ''#define CONFIG_ARCH x86  /* numeric */'' @ [LF]
       @ ''#endif'' @ [LF] @ [LF]"
    using e by simp
  have g: "fst (generate_config_header [''.config'' \<mapsto> ''CONFIG_ARCH=x86'' @ [LF]] ''.config''
            ''kernel_config_defines.h'') ''kernel_config_defines.h''
     = Some (''/* Auto-generated from .config - DO NOT EDIT */'' @ [LF] @
             ''#ifndef _KERNEL_CONFIG_DEFINES_H'' @ [LF] @
             ''#define _KERNEL_CONFIG_DEFINES_H'' @ [LF] @
             [LF] @
             ''#ifndef CONFIG_ARCH'' @ [LF] @
             ''#define CONFIG_ARCH x86  /* numeric */'' @ [LF] @
             ''#endif'' @ [LF] @
             [LF] @
             ''#endif /* _KERNEL_CONFIG_DEFINES_H */'' @ [LF])"
    by code_simp
  from e' g show ?thesis by (intro conjI)
qed

text \<open>The claim as the specification words it fails at the value \<^verbatim>\<open>hello\<close>: it is not
  quoted, not a boolean token and not an integer, and the header has it without quotes
  and tagged \<^verbatim>\<open>numeric\<close>.\<close>

theorem unquoted_string_counterexample:
  "\<not> (startswith ''hello'' [DQ] \<and> endswith ''hello'' [DQ])
 \<and> py_lower ''hello'' \<notin> set [''y'', ''yes'', ''true'', ''n'', ''no'', ''false'']
 \<and> py_int ''hello'' = None
 \<and> read_defines (''CONFIG_NAME=hello'' @ [LF]) = [(''CONFIG_NAME'', ''hello'', ''numeric'')]
 \<and> define_block (''CONFIG_NAME'', ''hello'', ''numeric'') ! 1
      = ''#define CONFIG_NAME hello  /* numeric */'' @ [LF]
 \<and> define_block (''CONFIG_NAME'', ''hello'', ''numeric'') ! 1
      \<noteq> ''#define CONFIG_NAME '' @ [DQ] @ ''hello'' @ [DQ] @ ''  /* string */'' @ [LF]"
  by code_simp

section \<open>The structure of the generated header\<close>



text \<open>A header in which the block of one option is nested inside that of another does not
  have the structure.\<close>

lemma nested_blocks_rejected:
  "\<not> own_guard_blocks [''#ifndef A'' @ [LF], ''#define A 1'' @ [LF], ''#ifndef B'' @ [LF],
                        ''#define B 1'' @ [LF], ''#endif'' @ [LF], [LF], ''#endif'' @ [LF], [LF]]"
  by code_simp






section \<open>Missing config file\<close>

text \<open>
  Claim C7. When the config file does not exist, the header compiler returns \<open>False\<close> and
  leaves the file system as it is (no header is written); the loader of the editor
  returns an empty model, and \<^verbatim>\<open>main\<close> starts from the built-in defaults, an explicit list
  of sixteen named options that are all booleans or integers.
\<close>

theorem missing_source_handling:
  assumes "files config_file = None" and "files ''.config'' = None"
  shows "generate_config_header files config_file header_file = (files, False)
       \<and> load_config files ''.config'' = []
       \<and> main_config files = default_config
       \<and> length default_config = 16
       \<and> list_all (\<lambda>(k, v). isinstance_int v) default_config"
  using assms
  by (simp add: generate_config_header_def load_config_def main_config_def default_config_def)

theorem missing_source_handling_witness:
  "generate_config_header Map.empty ''.config'' ''kernel_config_defines.h'' = (Map.empty, False)
   \<and> main_config Map.empty = default_config"
  using missing_source_handling [of Map.empty "''.config''" "''kernel_config_defines.h''"]
  by simp

section \<open>The external configurator\<close>

text \<open>When the external configurator is missing or fails, the model is kept as it is.\<close>

lemma dialog_failure_keeps_model:
  "\<not> snd (use_dialog_interface script_path run files)
   \<Longrightarrow> fst (menu_dialog script_path run config files) = config"
  by (auto simp: menu_dialog_def split: prod.splits)

text \<open>
  Claim C8 (the code departs from it). After the external configurator has succeeded and
  left a config file that holds \<^verbatim>\<open>CONFIG_B\<close> only, the model in memory is not what a load
  of that file gives: the option \<^verbatim>\<open>CONFIG_A\<close>, which is no longer on disk, is still there.
\<close>

theorem dialog_success_merges:
  "fst (menu_dialog ''configure_kernel.sh''
          (\<lambda>files. (files(''.config'' \<mapsto> ''CONFIG_B=y'' @ [LF]), True))
          [(''CONFIG_A'', PBool True)]
          [''configure_kernel.sh'' \<mapsto> [], ''.config'' \<mapsto> ''CONFIG_A=y'' @ [LF]])
     = [(''CONFIG_A'', PBool True), (''CONFIG_B'', PBool True)]
 \<and> load_config [''configure_kernel.sh'' \<mapsto> [], ''.config'' \<mapsto> ''CONFIG_B=y'' @ [LF]] ''.config''
     = [(''CONFIG_B'', PBool True)]"
  by code_simp

section \<open>The list-edit states\<close>

text \<open>
  Claim C9 (the code departs from it). The integer list is filtered with the integer type
  test, which a boolean passes: the listing of \<^verbatim>\<open>set_int_options\<close> shows the boolean option
  \<^verbatim>\<open>CONFIG_PCI\<close> as its entry 1, and choosing it with the new value 5 turns that boolean
  option into an integer option.
\<close>

theorem integer_list_holds_booleans:
  "listing (int_options [(''CONFIG_PCI'', PBool True), (''CONFIG_TIMER_HZ'', PInt 100)])
     = [(1, ''CONFIG_PCI'', PBool True), (2, ''CONFIG_TIMER_HZ'', PInt 100)]
 \<and> set_int_options [(''CONFIG_PCI'', PBool True), (''CONFIG_TIMER_HZ'', PInt 100)] ''1'' ''5''
     = [(''CONFIG_PCI'', PInt 5), (''CONFIG_TIMER_HZ'', PInt 100)]"
  by code_simp

end
